theory Spec2Isabelle
  imports Complex_Main
begin

section \<open>Numbers and time\<close>

text \<open>
  The planner (\<^verbatim>\<open>trips/hos_engine.py\<close>) and the log generator
  (\<^verbatim>\<open>trips/eld_generator.py\<close>) compute with Python floats. Here a float is a
  \<open>real\<close>: arithmetic is exact, so the slack the specification allows for rounding error
  is not needed. A \<^verbatim>\<open>datetime\<close> is the number of microseconds since the epoch (an
  \<open>int\<close>, the resolution of Python's type, without its year range), a \<^verbatim>\<open>date\<close> is a
  day number, and a \<^verbatim>\<open>timedelta\<close> is a number of microseconds.
\<close>

type_synonym datetime = int
type_synonym date = int

definition round_half_even :: "real \<Rightarrow> int" where
  "round_half_even x =
     (let f = \<lfloor>x\<rfloor>; r = x - of_int f
      in if r < 1 / 2 then f else if 1 / 2 < r then f + 1
         else if even f then f else f + 1)"

text \<open>\<^verbatim>\<open>round(x, n)\<close>: to \<open>n\<close> decimals, ties to even.\<close>

definition py_round :: "nat \<Rightarrow> real \<Rightarrow> real" where
  "py_round n x = of_int (round_half_even (x * 10 ^ n)) / 10 ^ n"

definition US_PER_HOUR :: int where
  "US_PER_HOUR = 3600000000"

definition US_PER_DAY :: int where
  "US_PER_DAY = 86400000000"

text \<open>\<^verbatim>\<open>timedelta(hours=h)\<close>: the constructor rounds to a whole microsecond, ties to even.\<close>

definition timedelta_hours :: "real \<Rightarrow> int" where
  "timedelta_hours h = round_half_even (h * of_int US_PER_HOUR)"

text \<open>\<^verbatim>\<open>td.total_seconds() / 3600\<close>\<close>

definition hours_of :: "int \<Rightarrow> real" where
  "hours_of td = of_int td / of_int US_PER_HOUR"

section \<open>Constants of the engine\<close>

definition OFF_DUTY :: string where "OFF_DUTY = ''off_duty''"
definition SLEEPER :: string where "SLEEPER = ''sleeper_berth''"
definition DRIVING :: string where "DRIVING = ''driving''"
definition ON_DUTY :: string where "ON_DUTY = ''on_duty_not_driving''"

definition AVG_SPEED_MPH :: real where "AVG_SPEED_MPH = 55"
definition MAX_DRIVING_HOURS :: real where "MAX_DRIVING_HOURS = 11"
definition MAX_WINDOW_HOURS :: real where "MAX_WINDOW_HOURS = 14"
definition BREAK_AFTER_HOURS :: real where "BREAK_AFTER_HOURS = 8"
definition BREAK_DURATION_HOURS :: real where "BREAK_DURATION_HOURS = 1 / 2"
definition REST_DURATION_HOURS :: real where "REST_DURATION_HOURS = 10"
definition CYCLE_RESTART_HOURS :: real where "CYCLE_RESTART_HOURS = 34"
definition MAX_CYCLE_HOURS :: real where "MAX_CYCLE_HOURS = 70"
definition FUEL_INTERVAL_MILES :: real where "FUEL_INTERVAL_MILES = 1000"
definition FUEL_STOP_DURATION_HOURS :: real where "FUEL_STOP_DURATION_HOURS = 1 / 2"
definition PICKUP_DURATION_HOURS :: real where "PICKUP_DURATION_HOURS = 1"
definition DROPOFF_DURATION_HOURS :: real where "DROPOFF_DURATION_HOURS = 1"

lemmas hos_constants =
  AVG_SPEED_MPH_def MAX_DRIVING_HOURS_def MAX_WINDOW_HOURS_def BREAK_AFTER_HOURS_def
  BREAK_DURATION_HOURS_def REST_DURATION_HOURS_def CYCLE_RESTART_HOURS_def
  MAX_CYCLE_HOURS_def FUEL_INTERVAL_MILES_def FUEL_STOP_DURATION_HOURS_def
  PICKUP_DURATION_HOURS_def DROPOFF_DURATION_HOURS_def

section \<open>Data model\<close>

text \<open>A location is the dictionary \<^verbatim>\<open>{"lat", "lng", "name"}\<close>.\<close>

record location =
  lat :: real
  lng :: real
  name :: string

record TripSegment =
  segment_type :: string
  duty_status :: string
  start_time :: datetime
  end_time :: datetime
  start_location :: "location option"
  end_location :: "location option"
  distance_miles :: real
  reason :: string

definition duration_hours :: "TripSegment \<Rightarrow> real" where
  "duration_hours s = hours_of (end_time s - start_time s)"

record HOSState =
  driving_hours :: real
  window_hours :: real
  hours_since_break :: real
  cycle_hours :: real
  on_duty :: bool

text \<open>\<^verbatim>\<open>HOSState(cycle_hours=c)\<close>: the other fields take their defaults.\<close>

definition HOSState_init :: "real \<Rightarrow> HOSState" where
  "HOSState_init c =
     \<lparr>driving_hours = 0, window_hours = 0, hours_since_break = 0, cycle_hours = c,
      on_duty = False\<rparr>"

definition remaining_driving :: "HOSState \<Rightarrow> real" where
  "remaining_driving s =
     (let by_driving = MAX_DRIVING_HOURS - driving_hours s;
          by_window = MAX_WINDOW_HOURS - window_hours s;
          by_break = BREAK_AFTER_HOURS - hours_since_break s;
          by_cycle = MAX_CYCLE_HOURS - cycle_hours s
      in max 0 (min by_driving (min by_window (min by_break by_cycle))))"

definition remaining_before_break :: "HOSState \<Rightarrow> real" where
  "remaining_before_break s = max 0 (BREAK_AFTER_HOURS - hours_since_break s)"

definition remaining_drive_limit :: "HOSState \<Rightarrow> real" where
  "remaining_drive_limit s = max 0 (MAX_DRIVING_HOURS - driving_hours s)"

definition remaining_window :: "HOSState \<Rightarrow> real" where
  "remaining_window s = max 0 (MAX_WINDOW_HOURS - window_hours s)"

definition remaining_cycle :: "HOSState \<Rightarrow> real" where
  "remaining_cycle s = max 0 (MAX_CYCLE_HOURS - cycle_hours s)"

definition needs_break :: "HOSState \<Rightarrow> bool" where
  "needs_break s \<longleftrightarrow> BREAK_AFTER_HOURS \<le> hours_since_break s"

definition needs_rest :: "HOSState \<Rightarrow> bool" where
  "needs_rest s \<longleftrightarrow>
     MAX_DRIVING_HOURS \<le> driving_hours s \<or> MAX_WINDOW_HOURS \<le> window_hours s"

definition needs_cycle_reset :: "HOSState \<Rightarrow> bool" where
  "needs_cycle_reset s \<longleftrightarrow> MAX_CYCLE_HOURS \<le> cycle_hours s"

definition add_driving :: "real \<Rightarrow> HOSState \<Rightarrow> HOSState" where
  "add_driving hours s =
     s\<lparr>driving_hours := driving_hours s + hours,
       window_hours := window_hours s + hours,
       hours_since_break := hours_since_break s + hours,
       cycle_hours := cycle_hours s + hours,
       on_duty := True\<rparr>"

definition add_on_duty :: "real \<Rightarrow> HOSState \<Rightarrow> HOSState" where
  "add_on_duty hours s =
     s\<lparr>window_hours := window_hours s + hours,
       cycle_hours := cycle_hours s + hours,
       on_duty := True\<rparr>"

definition take_break :: "HOSState \<Rightarrow> HOSState" where
  "take_break s = s\<lparr>hours_since_break := 0\<rparr>"

definition take_rest :: "HOSState \<Rightarrow> HOSState" where
  "take_rest s =
     s\<lparr>driving_hours := 0, window_hours := 0, hours_since_break := 0, on_duty := False\<rparr>"

text \<open>
  The two statements \<^verbatim>\<open>state.take_rest(); state.cycle_hours = 0.0\<close> of a 34-hour
  restart.
\<close>

definition take_cycle_restart :: "HOSState \<Rightarrow> HOSState" where
  "take_cycle_restart s = (take_rest s)\<lparr>cycle_hours := 0\<rparr>"

definition interpolate_location :: "location \<Rightarrow> location \<Rightarrow> real \<Rightarrow> location" where
  "interpolate_location start_loc end_loc fraction =
     (let lat' = lat start_loc + (lat end_loc - lat start_loc) * fraction;
          lng' = lng start_loc + (lng end_loc - lng start_loc) * fraction
      in \<lparr>lat = py_round 6 lat', lng = py_round 6 lng', name = ''''\<rparr>)"

section \<open>The driving planner\<close>

text \<open>
  The local variables of \<^verbatim>\<open>_plan_driving_segment\<close> that change in its loop, with the
  ledger the function mutates. Each emitted segment is recorded with a snapshot of the
  ledger taken right after the ledger update that follows the segment's emission; the
  snapshots are not part of the program's output, and \<open>map fst\<close> gives the list the
  program returns.
\<close>

type_synonym event = "TripSegment \<times> HOSState"

record plan_vars =
  state :: HOSState
  segments :: "event list"
  miles_remaining :: real
  current_time :: datetime
  miles_since_fuel :: real

text \<open>
  The branch \<^verbatim>\<open>if drive_limit <= 0\<close> of the loop body: a 34-hour restart, a
  30-minute break or a 10-hour rest, then \<^verbatim>\<open>continue\<close>.
\<close>

definition plan_interruption :: "location \<Rightarrow> location \<Rightarrow> real \<Rightarrow> plan_vars \<Rightarrow> plan_vars" where
  "plan_interruption start_loc end_loc total_miles v =
     (let fraction_done = (if 0 < total_miles then 1 - miles_remaining v / total_miles else 0);
          loc = interpolate_location start_loc end_loc fraction_done;
          t = current_time v
      in if needs_cycle_reset (state v) then
           (let rest_seg =
                  \<lparr>segment_type = ''rest'', duty_status = OFF_DUTY, start_time = t,
                   end_time = t + timedelta_hours CYCLE_RESTART_HOURS,
                   start_location = Some loc, end_location = Some loc, distance_miles = 0,
                   reason = ''Required 34-hour restart (70hr cycle limit)''\<rparr>;
                st = take_cycle_restart (state v)
            in v\<lparr>state := st, segments := segments v @ [(rest_seg, st)],
                 current_time := end_time rest_seg\<rparr>)
         else if needs_break (state v) \<and> \<not> needs_rest (state v) then
           (let break_seg =
                  \<lparr>segment_type = ''break'', duty_status = OFF_DUTY, start_time = t,
                   end_time = t + timedelta_hours BREAK_DURATION_HOURS,
                   start_location = Some loc, end_location = Some loc, distance_miles = 0,
                   reason = ''Required 30-minute break (8hr driving limit)''\<rparr>;
                st = take_break (state v)
            in v\<lparr>state := st, segments := segments v @ [(break_seg, st)],
                 current_time := end_time break_seg\<rparr>)
         else
           (let rest_seg =
                  \<lparr>segment_type = ''rest'', duty_status = OFF_DUTY, start_time = t,
                   end_time = t + timedelta_hours REST_DURATION_HOURS,
                   start_location = Some loc, end_location = Some loc, distance_miles = 0,
                   reason = ''Required 10-hour rest (driving/window limit)''\<rparr>;
                st = take_rest (state v)
            in v\<lparr>state := st, segments := segments v @ [(rest_seg, st)],
                 current_time := end_time rest_seg\<rparr>))"

text \<open>
  The branch \<^verbatim>\<open>if hours_this_segment > hours_to_break and hours_to_break > 0\<close>: drive
  up to the break (when that is more than 0.1 miles), take the break, combined with a
  fuel stop when one is due within 100 miles, then \<^verbatim>\<open>continue\<close>.
\<close>

definition plan_break_carve ::
  "location \<Rightarrow> location \<Rightarrow> real \<Rightarrow> bool \<Rightarrow> real \<Rightarrow> plan_vars \<Rightarrow> plan_vars" where
  "plan_break_carve start_loc end_loc total_miles need_fuel hours_to_break v =
     (let miles_before_break = hours_to_break * AVG_SPEED_MPH;
          v1 = (if 1 / 10 < miles_before_break then
                  (let fraction_start =
                         (if 0 < total_miles then 1 - miles_remaining v / total_miles else 0);
                       fraction_end =
                         (if 0 < total_miles
                          then 1 - (miles_remaining v - miles_before_break) / total_miles
                          else 1);
                       seg_start = interpolate_location start_loc end_loc fraction_start;
                       seg_end = interpolate_location start_loc end_loc fraction_end;
                       drive_seg =
                         \<lparr>segment_type = ''drive'', duty_status = DRIVING,
                          start_time = current_time v,
                          end_time = current_time v + timedelta_hours hours_to_break,
                          start_location = Some seg_start, end_location = Some seg_end,
                          distance_miles = miles_before_break, reason = ''Driving''\<rparr>;
                       st = add_driving hours_to_break (state v)
                   in v\<lparr>state := st, segments := segments v @ [(drive_seg, st)],
                        miles_remaining := miles_remaining v - miles_before_break,
                        miles_since_fuel := miles_since_fuel v + miles_before_break,
                        current_time := end_time drive_seg\<rparr>)
                else v);
          fraction_done =
            (if 0 < total_miles then 1 - miles_remaining v1 / total_miles else 1);
          loc = interpolate_location start_loc end_loc fraction_done;
          combined = (need_fuel \<and> \<bar>miles_since_fuel v1 - FUEL_INTERVAL_MILES\<bar> < 100);
          break_seg =
            (if combined then
               \<lparr>segment_type = ''fuel'', duty_status = OFF_DUTY,
                start_time = current_time v1,
                end_time = current_time v1 + timedelta_hours BREAK_DURATION_HOURS,
                start_location = Some loc, end_location = Some loc, distance_miles = 0,
                reason = ''Fuel stop + 30-minute break''\<rparr>
             else
               \<lparr>segment_type = ''break'', duty_status = OFF_DUTY,
                start_time = current_time v1,
                end_time = current_time v1 + timedelta_hours BREAK_DURATION_HOURS,
                start_location = Some loc, end_location = Some loc, distance_miles = 0,
                reason = ''Required 30-minute break (8hr driving limit)''\<rparr>);
          st = take_break (state v1)
      in v1\<lparr>state := st, segments := segments v1 @ [(break_seg, st)],
            miles_since_fuel := (if combined then 0 else miles_since_fuel v1),
            current_time := end_time break_seg\<rparr>)"

text \<open>
  The rest of the loop body (\<^verbatim>\<open># Drive this segment\<close>): the drive segment, then the
  on-duty fuel stop when one is due and miles remain.
\<close>

definition plan_drive ::
  "location \<Rightarrow> location \<Rightarrow> real \<Rightarrow> bool \<Rightarrow> real \<Rightarrow> real \<Rightarrow> plan_vars \<Rightarrow> plan_vars" where
  "plan_drive start_loc end_loc total_miles need_fuel miles_this_segment hours_this_segment v =
     (let fraction_start =
            (if 0 < total_miles then 1 - miles_remaining v / total_miles else 0);
          fraction_end =
            (if 0 < total_miles
             then 1 - (miles_remaining v - miles_this_segment) / total_miles
             else 1);
          seg_start = interpolate_location start_loc end_loc fraction_start;
          seg_end = interpolate_location start_loc end_loc fraction_end;
          drive_seg =
            \<lparr>segment_type = ''drive'', duty_status = DRIVING,
             start_time = current_time v,
             end_time = current_time v + timedelta_hours hours_this_segment,
             start_location = Some seg_start, end_location = Some seg_end,
             distance_miles = miles_this_segment, reason = ''Driving''\<rparr>;
          st = add_driving hours_this_segment (state v);
          v1 = v\<lparr>state := st, segments := segments v @ [(drive_seg, st)],
                 miles_remaining := miles_remaining v - miles_this_segment,
                 miles_since_fuel := miles_since_fuel v + miles_this_segment,
                 current_time := end_time drive_seg\<rparr>
      in if need_fuel \<and> 1 / 10 < miles_remaining v1 then
           (let loc = seg_end;
                fuel_seg =
                  \<lparr>segment_type = ''fuel'', duty_status = ON_DUTY,
                   start_time = current_time v1,
                   end_time = current_time v1 + timedelta_hours FUEL_STOP_DURATION_HOURS,
                   start_location = Some loc, end_location = Some loc, distance_miles = 0,
                   reason = ''Fuel stop''\<rparr>;
                st2 = add_on_duty FUEL_STOP_DURATION_HOURS (state v1)
            in v1\<lparr>state := st2, segments := segments v1 @ [(fuel_seg, st2)],
                  miles_since_fuel := 0, current_time := end_time fuel_seg\<rparr>)
         else v1)"

text \<open>One pass through the body of \<^verbatim>\<open>while miles_remaining > 0.1\<close>.\<close>

definition plan_iteration :: "location \<Rightarrow> location \<Rightarrow> real \<Rightarrow> plan_vars \<Rightarrow> plan_vars" where
  "plan_iteration start_loc end_loc total_miles v =
     (let drive_limit = remaining_driving (state v)
      in if drive_limit \<le> 0 then plan_interruption start_loc end_loc total_miles v
         else
           (let miles_can_drive = drive_limit * AVG_SPEED_MPH;
                miles_this_segment0 = min (miles_remaining v) miles_can_drive;
                miles_to_fuel0 = FUEL_INTERVAL_MILES - miles_since_fuel v;
                miles_to_fuel =
                  (if miles_to_fuel0 \<le> 0 then FUEL_INTERVAL_MILES else miles_to_fuel0);
                need_fuel =
                  (miles_to_fuel \<le> miles_this_segment0 \<and> miles_to_fuel < miles_remaining v);
                miles_this_segment =
                  (if need_fuel then miles_to_fuel else miles_this_segment0);
                hours_this_segment = miles_this_segment / AVG_SPEED_MPH;
                hours_to_break = remaining_before_break (state v)
            in if hours_to_break < hours_this_segment \<and> 0 < hours_to_break
               then plan_break_carve start_loc end_loc total_miles need_fuel hours_to_break v
               else plan_drive start_loc end_loc total_miles need_fuel miles_this_segment
                      hours_this_segment v))"

text \<open>
  The variant of the loop. With \<open>T\<close> the driving hours still to do and \<open>F\<close> the fuel
  stops still to come, it counts the interruptions the ledger can still ask for: a break
  uses up 8 hours of driving, a rest 11 hours of driving or 14 hours of duty, a restart
  70 hours of duty. The last summand tells a pass that must interrupt from one that can
  drive.
\<close>

definition fuel_stops_left :: "plan_vars \<Rightarrow> nat" where
  "fuel_stops_left v = nat \<lfloor>(miles_since_fuel v + miles_remaining v) / 1000\<rfloor>"

definition budget :: "real \<Rightarrow> real \<Rightarrow> real \<Rightarrow> nat" where
  "budget k used todo = nat \<lfloor>(max 0 used + todo) / k\<rfloor>"

definition interruptions_left :: "plan_vars \<Rightarrow> nat" where
  "interruptions_left v =
     (let T = miles_remaining v / 55; F = real (fuel_stops_left v)
      in budget 8 (hours_since_break (state v)) T
         + budget 11 (driving_hours (state v)) T
         + budget 14 (window_hours (state v)) (T + F / 2)
         + budget 70 (cycle_hours (state v)) (T + F / 2))"

definition plan_measure :: "plan_vars \<Rightarrow> nat" where
  "plan_measure v =
     (if 1 / 10 < miles_remaining v
      then 2 * (fuel_stops_left v + interruptions_left v)
           + (if 0 < remaining_driving (state v) then 1 else 0) + 1
      else 0)"

subsection \<open>The loop terminates\<close>

lemma budget_mono:
  assumes "0 < k" "max 0 u' + t' \<le> max 0 u + t"
  shows "budget k u' t' \<le> budget k u t"
  unfolding budget_def using assms
  by (intro nat_mono floor_mono divide_right_mono) simp_all

lemma budget_reset:
  assumes k: "0 < k" and u: "k \<le> u" and t: "0 \<le> t'" and le: "t' \<le> t"
  shows "budget k 0 t' < budget k u t"
proof -
  have "1 \<le> u / k" "t' / k \<le> t / k" "max 0 u = u"
    using k u le by (simp_all add: divide_right_mono)
  then have "t' / k + 1 \<le> (max 0 u + t) / k"
    by (simp add: add_divide_distrib)
  then have "of_int \<lfloor>t' / k\<rfloor> + 1 \<le> (max 0 u + t) / k"
    using of_int_floor_le [of "t' / k"] by linarith
  then have "of_int (\<lfloor>t' / k\<rfloor> + 1) \<le> (max 0 u + t) / k"
    by simp
  then have "\<lfloor>t' / k\<rfloor> + 1 \<le> \<lfloor>(max 0 u + t) / k\<rfloor>"
    by (simp only: le_floor_iff)
  moreover have "0 \<le> \<lfloor>t' / k\<rfloor>" using k t by simp
  ultimately have "nat \<lfloor>t' / k\<rfloor> < nat \<lfloor>(max 0 u + t) / k\<rfloor>"
    by linarith
  then show ?thesis by (simp add: budget_def)
qed

lemma interruption_fields:
  "miles_remaining (plan_interruption sl el tm v) = miles_remaining v"
  "miles_since_fuel (plan_interruption sl el tm v) = miles_since_fuel v"
  "state (plan_interruption sl el tm v) =
     (if needs_cycle_reset (state v) then take_cycle_restart (state v)
      else if needs_break (state v) \<and> \<not> needs_rest (state v) then take_break (state v)
      else take_rest (state v))"
  by (simp_all add: plan_interruption_def Let_def)

lemma remaining_driving_pos_iff:
  "0 < remaining_driving s \<longleftrightarrow>
     driving_hours s < 11 \<and> window_hours s < 14 \<and> hours_since_break s < 8
     \<and> cycle_hours s < 70"
  by (simp add: remaining_driving_def hos_constants Let_def less_max_iff_disj)

lemma interruption_restores:
  "0 < remaining_driving (state (plan_interruption sl el tm v))"
  by (simp add: interruption_fields remaining_driving_pos_iff needs_cycle_reset_def
      needs_break_def needs_rest_def take_cycle_restart_def take_rest_def take_break_def
      hos_constants not_le)

lemma interruptions_left_interruption:
  assumes mr: "1 / 10 < miles_remaining v" and dl: "remaining_driving (state v) \<le> 0"
  shows "interruptions_left (plan_interruption sl el tm v) < interruptions_left v"
proof -
  let ?v' = "plan_interruption sl el tm v"
  let ?T = "miles_remaining v / 55"
  let ?G = "?T + real (fuel_stops_left v) / 2"
  have T: "0 \<le> ?T" "0 \<le> ?G" using mr by simp_all
  have F: "fuel_stops_left ?v' = fuel_stops_left v"
    by (simp add: fuel_stops_left_def interruption_fields)
  have lim: "11 \<le> driving_hours (state v) \<or> 14 \<le> window_hours (state v)
     \<or> 8 \<le> hours_since_break (state v) \<or> 70 \<le> cycle_hours (state v)"
    using dl remaining_driving_pos_iff [of "state v"] by (auto simp: not_less)
  show ?thesis
  proof (cases "needs_cycle_reset (state v)")
    case True
    then have c: "70 \<le> cycle_hours (state v)" by (simp add: needs_cycle_reset_def hos_constants)
    have "budget 8 0 ?T \<le> budget 8 (hours_since_break (state v)) ?T"
      "budget 11 0 ?T \<le> budget 11 (driving_hours (state v)) ?T"
      "budget 14 0 ?G \<le> budget 14 (window_hours (state v)) ?G"
      by (rule budget_mono; simp)+
    moreover have "budget 70 0 ?G < budget 70 (cycle_hours (state v)) ?G"
      using c T by (intro budget_reset) simp_all
    ultimately show ?thesis using True
      by (simp add: interruptions_left_def interruption_fields F take_cycle_restart_def take_rest_def Let_def)
  next
    case nc: False
    show ?thesis
    proof (cases "needs_break (state v) \<and> \<not> needs_rest (state v)")
      case True
      then have b: "8 \<le> hours_since_break (state v)" by (simp add: needs_break_def hos_constants)
      have "budget 8 0 ?T < budget 8 (hours_since_break (state v)) ?T"
        using b T by (intro budget_reset) simp_all
      then show ?thesis using True nc
        by (simp add: interruptions_left_def interruption_fields F take_break_def Let_def)
    next
      case False
      with nc lim have r: "11 \<le> driving_hours (state v) \<or> 14 \<le> window_hours (state v)"
        by (auto simp: needs_cycle_reset_def needs_break_def needs_rest_def hos_constants)
      have le: "budget 8 0 ?T \<le> budget 8 (hours_since_break (state v)) ?T"
        "budget 11 0 ?T \<le> budget 11 (driving_hours (state v)) ?T"
        "budget 14 0 ?G \<le> budget 14 (window_hours (state v)) ?G"
        by (rule budget_mono; simp)+
      from r have "budget 11 0 ?T < budget 11 (driving_hours (state v)) ?T
         \<or> budget 14 0 ?G < budget 14 (window_hours (state v)) ?G"
        using T by (auto intro!: budget_reset)
      with le show ?thesis using False nc
        by (auto simp add: interruptions_left_def interruption_fields F take_rest_def Let_def)
    qed
  qed
qed

lemma remaining_driving_pos:
  assumes "0 < remaining_driving s"
  shows "remaining_driving s =
     min (11 - driving_hours s) (min (14 - window_hours s)
       (min (8 - hours_since_break s) (70 - cycle_hours s)))"
    and "remaining_driving s \<le> remaining_before_break s"
proof -
  define x where "x = min (11 - driving_hours s) (min (14 - window_hours s)
       (min (8 - hours_since_break s) (70 - cycle_hours s)))"
  have rd: "remaining_driving s = max 0 x"
    by (simp add: remaining_driving_def hos_constants Let_def x_def)
  with assms have "0 < x" by simp
  with rd show 1: "remaining_driving s = x" by simp
  have "x \<le> 8 - hours_since_break s" by (simp add: x_def min_le_iff_disj)
  then show "remaining_driving s \<le> remaining_before_break s"
    unfolding 1 by (simp add: remaining_before_break_def hos_constants)
qed

lemma remaining_driving_exhausted:
  assumes "0 < remaining_driving s"
  shows "remaining_driving (add_driving (remaining_driving s) s) = 0"
proof -
  define h where "h = remaining_driving s"
  define x where "x = min (11 - driving_hours s) (min (14 - window_hours s)
       (min (8 - hours_since_break s) (70 - cycle_hours s)))"
  have hx: "h = x"
    unfolding h_def x_def by (rule remaining_driving_pos(1) [OF assms])
  have f: "driving_hours (add_driving h s) = driving_hours s + h"
    "window_hours (add_driving h s) = window_hours s + h"
    "hours_since_break (add_driving h s) = hours_since_break s + h"
    "cycle_hours (add_driving h s) = cycle_hours s + h"
    by (simp_all add: add_driving_def)
  have "remaining_driving (add_driving h s) =
     max 0 (min (11 - (driving_hours s + h)) (min (14 - (window_hours s + h))
       (min (8 - (hours_since_break s + h)) (70 - (cycle_hours s + h)))))"
    by (simp only: remaining_driving_def hos_constants Let_def f)
  also have "\<dots> = max 0 (x - h)"
    by (simp only: x_def diff_diff_eq [symmetric] min_diff_distrib_left [symmetric])
  also have "\<dots> = 0" by (simp add: hx)
  finally show ?thesis by (simp only: h_def)
qed

lemma plan_iteration_interrupts:
  "remaining_driving (state v) \<le> 0 \<Longrightarrow>
   plan_iteration sl el tm v = plan_interruption sl el tm v"
  by (simp add: plan_iteration_def Let_def)

lemma plan_iteration_drives:
  assumes dl: "0 < remaining_driving (state v)"
  obtains need_fuel m where
    "plan_iteration sl el tm v = plan_drive sl el tm need_fuel m (m / 55) v"
    "m \<le> miles_remaining v"
    "m \<le> remaining_driving (state v) * 55"
    "0 < miles_remaining v \<Longrightarrow> 0 < m"
    "need_fuel \<Longrightarrow> m < miles_remaining v"
    "\<not> need_fuel \<Longrightarrow> m = min (miles_remaining v) (remaining_driving (state v) * 55)"
    "m \<le> (if 1000 - miles_since_fuel v \<le> 0 then 1000 else 1000 - miles_since_fuel v)"
    "need_fuel \<Longrightarrow>
       m = (if 1000 - miles_since_fuel v \<le> 0 then 1000 else 1000 - miles_since_fuel v)"
proof -
  define dl where "dl = remaining_driving (state v)"
  define m0 where "m0 = min (miles_remaining v) (dl * AVG_SPEED_MPH)"
  define mtf where "mtf =
    (if FUEL_INTERVAL_MILES - miles_since_fuel v \<le> 0 then FUEL_INTERVAL_MILES
     else FUEL_INTERVAL_MILES - miles_since_fuel v)"
  define nf where "nf \<longleftrightarrow> mtf \<le> m0 \<and> mtf < miles_remaining v"
  define m where "m = (if nf then mtf else m0)"
  define htb where "htb = remaining_before_break (state v)"
  have ndl: "\<not> dl \<le> 0" using dl by (simp add: dl_def)
  have "plan_iteration sl el tm v =
     (if dl \<le> 0 then plan_interruption sl el tm v
      else if htb < m / AVG_SPEED_MPH \<and> 0 < htb
        then plan_break_carve sl el tm nf htb v
        else plan_drive sl el tm nf m (m / AVG_SPEED_MPH) v)"
    unfolding plan_iteration_def Let_def m_def nf_def mtf_def m0_def dl_def htb_def ..
  then have eq: "plan_iteration sl el tm v =
     (if htb < m / AVG_SPEED_MPH \<and> 0 < htb
        then plan_break_carve sl el tm nf htb v
        else plan_drive sl el tm nf m (m / AVG_SPEED_MPH) v)"
    unfolding if_not_P [OF ndl] .
  have le: "m \<le> dl * 55"
    by (auto simp: m_def nf_def m0_def hos_constants)
  then have "m / 55 \<le> htb"
    using remaining_driving_pos(2) [OF dl] by (simp add: htb_def dl_def)
  then have nC: "\<not> (htb < m / AVG_SPEED_MPH \<and> 0 < htb)"
    by (simp add: hos_constants)
  have "plan_iteration sl el tm v = plan_drive sl el tm nf m (m / AVG_SPEED_MPH) v"
    using eq unfolding if_not_P [OF nC] .
  then have 1: "plan_iteration sl el tm v = plan_drive sl el tm nf m (m / 55) v"
    by (simp add: hos_constants)
  have 2: "m \<le> miles_remaining v"
    by (auto simp: m_def nf_def m0_def)
  have mtf: "0 < mtf" by (simp add: mtf_def hos_constants)
  have 3: "0 < miles_remaining v \<Longrightarrow> 0 < m"
    using ndl mtf by (auto simp: m_def m0_def hos_constants)
  have 4: "nf \<Longrightarrow> m < miles_remaining v" by (simp add: m_def nf_def)
  have 5: "\<not> nf \<Longrightarrow> m = min (miles_remaining v) (remaining_driving (state v) * 55)"
    by (simp add: m_def m0_def dl_def hos_constants)
  have "m \<le> mtf" by (auto simp: m_def nf_def m0_def)
  then have 6: "m \<le> (if 1000 - miles_since_fuel v \<le> 0 then 1000 else 1000 - miles_since_fuel v)"
    by (simp add: mtf_def hos_constants split: if_splits)
  have "nf \<Longrightarrow> m = mtf" by (simp add: m_def)
  then have 7: "nf \<Longrightarrow>
       m = (if 1000 - miles_since_fuel v \<le> 0 then 1000 else 1000 - miles_since_fuel v)"
    by (simp add: mtf_def hos_constants split: if_splits)
  show thesis using that [of nf m] 1 2 le 3 4 5 6 7 unfolding dl_def by blast
qed

lemma plan_drive_fields:
  "miles_remaining (plan_drive sl el tm nf m h v) = miles_remaining v - m"
  "miles_since_fuel (plan_drive sl el tm nf m h v) =
     (if nf \<and> 1 / 10 < miles_remaining v - m then 0 else miles_since_fuel v + m)"
  "state (plan_drive sl el tm nf m h v) =
     (if nf \<and> 1 / 10 < miles_remaining v - m
      then add_on_duty (1 / 2) (add_driving h (state v)) else add_driving h (state v))"
  by (simp_all add: plan_drive_def Let_def hos_constants)

lemma interruptions_left_le:
  assumes mr: "miles_remaining v' = miles_remaining v - m" and m: "0 \<le> m"
    and b: "hours_since_break (state v') = hours_since_break (state v) + m / 55"
    and d: "driving_hours (state v') = driving_hours (state v) + m / 55"
    and w: "window_hours (state v') + real (fuel_stops_left v') / 2
            \<le> window_hours (state v) + m / 55 + real (fuel_stops_left v) / 2"
    and c: "cycle_hours (state v') + real (fuel_stops_left v') / 2
            \<le> cycle_hours (state v) + m / 55 + real (fuel_stops_left v) / 2"
    and f: "fuel_stops_left v' \<le> fuel_stops_left v"
  shows "interruptions_left v' \<le> interruptions_left v"
proof -
  have f': "real (fuel_stops_left v') \<le> real (fuel_stops_left v)" using f by simp
  have "budget 8 (hours_since_break (state v')) (miles_remaining v' / 55)
        \<le> budget 8 (hours_since_break (state v)) (miles_remaining v / 55)"
    using m by (intro budget_mono) (simp_all add: mr b diff_divide_distrib max_def)
  moreover have "budget 11 (driving_hours (state v')) (miles_remaining v' / 55)
        \<le> budget 11 (driving_hours (state v)) (miles_remaining v / 55)"
    using m by (intro budget_mono) (simp_all add: mr d diff_divide_distrib max_def)
  moreover have "budget 14 (window_hours (state v'))
          (miles_remaining v' / 55 + real (fuel_stops_left v') / 2)
        \<le> budget 14 (window_hours (state v))
          (miles_remaining v / 55 + real (fuel_stops_left v) / 2)"
    using m w f' by (intro budget_mono) (simp_all add: mr diff_divide_distrib max_def)
  moreover have "budget 70 (cycle_hours (state v'))
          (miles_remaining v' / 55 + real (fuel_stops_left v') / 2)
        \<le> budget 70 (cycle_hours (state v))
          (miles_remaining v / 55 + real (fuel_stops_left v) / 2)"
    using m c f' by (intro budget_mono) (simp_all add: mr diff_divide_distrib max_def)
  ultimately show ?thesis by (simp add: interruptions_left_def Let_def)
qed

lemma plan_measure_drive:
  assumes mr: "1 / 10 < miles_remaining v" and dl: "0 < remaining_driving (state v)"
  shows "plan_measure (plan_iteration sl el tm v) < plan_measure v"
proof -
  from dl obtain nf m where
    it: "plan_iteration sl el tm v = plan_drive sl el tm nf m (m / 55) v"
    and m_le: "m \<le> miles_remaining v" "m \<le> remaining_driving (state v) * 55"
    and m_pos: "0 < miles_remaining v \<Longrightarrow> 0 < m"
    and nf: "nf \<Longrightarrow> m < miles_remaining v"
      "nf \<Longrightarrow> m = (if 1000 - miles_since_fuel v \<le> 0 then 1000 else 1000 - miles_since_fuel v)"
    and no_nf: "\<not> nf \<Longrightarrow> m = min (miles_remaining v) (remaining_driving (state v) * 55)"
    by (rule plan_iteration_drives) blast
  let ?v' = "plan_drive sl el tm nf m (m / 55) v"
  have m0: "0 < m" using m_pos mr by simp
  show ?thesis
  proof (cases "1 / 10 < miles_remaining v - m")
    case False
    then have "plan_measure ?v' = 0" by (simp add: plan_measure_def plan_drive_fields)
    then show ?thesis using mr it by (simp add: plan_measure_def)
  next
    case more: True
    show ?thesis
    proof (cases nf)
      case True
      let ?Q' = "miles_remaining v - m"
      have Q: "?Q' + 1000 \<le> miles_since_fuel v + miles_remaining v"
        using nf(2) [OF True] by (simp split: if_splits)
      have "?Q' / 1000 + 1 \<le> (miles_since_fuel v + miles_remaining v) / 1000"
        using Q by (simp add: field_simps)
      then have "of_int \<lfloor>?Q' / 1000\<rfloor> + 1 \<le> (miles_since_fuel v + miles_remaining v) / 1000"
        using of_int_floor_le [of "?Q' / 1000"] by linarith
      then have "of_int (\<lfloor>?Q' / 1000\<rfloor> + 1) \<le> (miles_since_fuel v + miles_remaining v) / 1000"
        by simp
      then have "\<lfloor>?Q' / 1000\<rfloor> + 1 \<le> \<lfloor>(miles_since_fuel v + miles_remaining v) / 1000\<rfloor>"
        by (simp only: le_floor_iff)
      moreover have "0 \<le> \<lfloor>?Q' / 1000\<rfloor>" using more by simp
      ultimately have "nat \<lfloor>?Q' / 1000\<rfloor> + 1
          \<le> nat \<lfloor>(miles_since_fuel v + miles_remaining v) / 1000\<rfloor>"
        by linarith
      then have F: "fuel_stops_left ?v' + 1 \<le> fuel_stops_left v"
        using True more by (simp add: fuel_stops_left_def plan_drive_fields)
      then have F': "real (fuel_stops_left ?v') + 1 \<le> real (fuel_stops_left v)"
        by linarith
      have "interruptions_left ?v' \<le> interruptions_left v"
        using m0 F F' True more
        by (intro interruptions_left_le [where m = m])
          (simp_all add: plan_drive_fields add_driving_def add_on_duty_def)
      with F show ?thesis using mr more it by (simp add: plan_measure_def plan_drive_fields)
    next
      case False
      have st: "state ?v' = add_driving (m / 55) (state v)"
        using False by (simp add: plan_drive_fields)
      have F: "fuel_stops_left ?v' = fuel_stops_left v"
        using False by (simp add: fuel_stops_left_def plan_drive_fields)
      have I: "interruptions_left ?v' \<le> interruptions_left v"
        using m0 F False
        by (intro interruptions_left_le [where m = m])
          (simp_all add: plan_drive_fields add_driving_def)
      have "m = remaining_driving (state v) * 55"
        using no_nf [OF False] more by (simp add: min_def split: if_splits)
      then have h: "m / 55 = remaining_driving (state v)" by simp
      have "remaining_driving (add_driving (m / 55) (state v)) = 0"
        unfolding h by (rule remaining_driving_exhausted [OF dl])
      then have "remaining_driving (state ?v') = 0"
        by (simp only: st)
      then have "plan_measure ?v' = 2 * (fuel_stops_left ?v' + interruptions_left ?v') + 1"
        using more by (simp add: plan_measure_def plan_drive_fields(1))
      moreover have "plan_measure v = 2 * (fuel_stops_left v + interruptions_left v) + 2"
        using mr dl by (simp add: plan_measure_def)
      ultimately show ?thesis using F I it by simp
    qed
  qed
qed

lemma plan_measure_interruption:
  assumes mr: "1 / 10 < miles_remaining v" and dl: "remaining_driving (state v) \<le> 0"
  shows "plan_measure (plan_iteration sl el tm v) < plan_measure v"
proof -
  have "fuel_stops_left (plan_interruption sl el tm v) = fuel_stops_left v"
    by (simp add: fuel_stops_left_def interruption_fields)
  then show ?thesis
    using interruptions_left_interruption [OF mr dl, of sl el tm] mr dl
    by (simp add: plan_measure_def plan_iteration_interrupts interruption_fields(1))
qed

lemma plan_measure_decreases:
  "1 / 10 < miles_remaining v \<Longrightarrow> plan_measure (plan_iteration sl el tm v) < plan_measure v"
  using plan_measure_drive plan_measure_interruption by (cases "0 < remaining_driving (state v)") auto

text \<open>The loop \<^verbatim>\<open>while miles_remaining > 0.1\<close>.\<close>

function plan_loop :: "location \<Rightarrow> location \<Rightarrow> real \<Rightarrow> plan_vars \<Rightarrow> plan_vars" where
  "plan_loop start_loc end_loc total_miles v =
     (if 1 / 10 < miles_remaining v
      then plan_loop start_loc end_loc total_miles (plan_iteration start_loc end_loc total_miles v)
      else v)"
  by pat_completeness auto
termination
  by (relation "measure (\<lambda>(sl, el, tm, v). plan_measure v)") (simp_all add: plan_measure_decreases)

declare plan_loop.simps [simp del]


text \<open>
  \<^verbatim>\<open>_plan_driving_segment\<close> returns the emitted segments; it has also mutated the
  caller's ledger, which is returned with them. \<open>total_hours\<close> is not used.
\<close>

definition plan_driving_segment ::
  "HOSState \<Rightarrow> datetime \<Rightarrow> location \<Rightarrow> location \<Rightarrow> real \<Rightarrow> real \<Rightarrow> event list \<times> HOSState" where
  "plan_driving_segment st t0 start_loc end_loc total_miles total_hours =
     (let v = plan_loop start_loc end_loc total_miles
                \<lparr>state = st, segments = [], miles_remaining = total_miles,
                 current_time = t0, miles_since_fuel = 0\<rparr>
      in (segments v, state v))"

section \<open>The trip planner\<close>

definition check_and_add_rest_if_needed ::
  "HOSState \<Rightarrow> event list \<Rightarrow> datetime \<Rightarrow> location \<Rightarrow> event list \<times> HOSState" where
  "check_and_add_rest_if_needed st segs t loc =
     (if needs_cycle_reset st then
        (let rest_seg =
               \<lparr>segment_type = ''rest'', duty_status = OFF_DUTY, start_time = t,
                end_time = t + timedelta_hours CYCLE_RESTART_HOURS,
                start_location = Some loc, end_location = Some loc, distance_miles = 0,
                reason = ''Required 34-hour restart (70hr cycle limit)''\<rparr>;
             st' = take_cycle_restart st
         in (segs @ [(rest_seg, st')], st'))
      else if needs_rest st then
        (let rest_seg =
               \<lparr>segment_type = ''rest'', duty_status = OFF_DUTY, start_time = t,
                end_time = t + timedelta_hours REST_DURATION_HOURS,
                start_location = Some loc, end_location = Some loc, distance_miles = 0,
                reason = ''Required 10-hour rest''\<rparr>;
             st' = take_rest st
         in (segs @ [(rest_seg, st')], st'))
      else (segs, st))"

text \<open>
  A route leg is a dictionary; \<open>leg_type\<close> holds the value of
  \<^verbatim>\<open>leg.get("leg_type", "drive")\<close>. The routing engine's \<open>duration_hours\<close> is not read.
\<close>

record RouteLeg =
  leg_type :: string
  leg_start_location :: location
  leg_end_location :: location
  leg_distance_miles :: real
  leg_duration_hours :: real

datatype py_error = IndexError

text \<open>
  The loop \<^verbatim>\<open>for leg in route_legs\<close> of \<^verbatim>\<open>calculate_trip\<close>, with the ledger, the
  segments so far and \<open>current_time\<close>. \<^verbatim>\<open>segments[-1]\<close> raises \<open>IndexError\<close> on
  an empty list.
\<close>

fun calculate_trip_legs ::
  "RouteLeg list \<Rightarrow> HOSState \<Rightarrow> event list \<Rightarrow> datetime \<Rightarrow> py_error + event list" where
  "calculate_trip_legs [] st segs t = Inr segs"
| "calculate_trip_legs (leg # legs) st segs t =
     (let start_loc = leg_start_location leg;
          end_loc = leg_end_location leg;
          total_distance = leg_distance_miles leg;
          total_drive_time = total_distance / AVG_SPEED_MPH
      in if leg_type leg = ''drive_to_pickup'' then
           (let (new_segs, st1) =
                  plan_driving_segment st t start_loc end_loc total_distance total_drive_time;
                segs1 = segs @ new_segs
            in if segs1 = [] then Inl IndexError
               else
                 (let t1 = end_time (fst (last segs1));
                      (segs2, st2) = check_and_add_rest_if_needed st1 segs1 t1 end_loc;
                      t2 = (if segs2 \<noteq> [] then end_time (fst (last segs2)) else t1);
                      pickup_seg =
                        \<lparr>segment_type = ''pickup'', duty_status = ON_DUTY, start_time = t2,
                         end_time = t2 + timedelta_hours PICKUP_DURATION_HOURS,
                         start_location = Some end_loc, end_location = Some end_loc,
                         distance_miles = 0, reason = ''Pickup - Loading''\<rparr>;
                      st3 = add_on_duty PICKUP_DURATION_HOURS st2
                  in calculate_trip_legs legs st3 (segs2 @ [(pickup_seg, st3)])
                       (end_time pickup_seg)))
         else if leg_type leg = ''drive_to_dropoff'' then
           (let (new_segs, st1) =
                  plan_driving_segment st t start_loc end_loc total_distance total_drive_time;
                segs1 = segs @ new_segs
            in if segs1 = [] then Inl IndexError
               else
                 (let t1 = end_time (fst (last segs1));
                      (segs2, st2) = check_and_add_rest_if_needed st1 segs1 t1 end_loc;
                      t2 = (if segs2 \<noteq> [] then end_time (fst (last segs2)) else t1);
                      dropoff_seg =
                        \<lparr>segment_type = ''dropoff'', duty_status = ON_DUTY, start_time = t2,
                         end_time = t2 + timedelta_hours DROPOFF_DURATION_HOURS,
                         start_location = Some end_loc, end_location = Some end_loc,
                         distance_miles = 0, reason = ''Dropoff - Unloading''\<rparr>;
                      st3 = add_on_duty DROPOFF_DURATION_HOURS st2
                  in calculate_trip_legs legs st3 (segs2 @ [(dropoff_seg, st3)])
                       (end_time dropoff_seg)))
         else calculate_trip_legs legs st segs t)"

text \<open>
  \<^verbatim>\<open>calculate_trip\<close> with an explicit \<open>start_time\<close> (the default is the clock of the
  caller): first with the ledger snapshots, then as the program returns it.
\<close>

definition calculate_trip_events ::
  "RouteLeg list \<Rightarrow> real \<Rightarrow> datetime \<Rightarrow> py_error + event list" where
  "calculate_trip_events route_legs current_cycle_used t0 =
     calculate_trip_legs route_legs (HOSState_init current_cycle_used) [] t0"

definition calculate_trip ::
  "RouteLeg list \<Rightarrow> real \<Rightarrow> datetime \<Rightarrow> py_error + TripSegment list" where
  "calculate_trip route_legs current_cycle_used t0 =
     map_sum id (map fst) (calculate_trip_events route_legs current_cycle_used t0)"

section \<open>The ELD log generator\<close>

text \<open>
  An entry of a daily log is the dictionary
  \<^verbatim>\<open>{"status", "start_hour", "end_hour", "segment_type"}\<close>.
\<close>

record LogEntry =
  status :: string
  start_hour :: real
  end_hour :: real
  entry_segment_type :: string

record TotalHours =
  off_duty_hours :: real
  sleeper_berth_hours :: real
  driving_hours_total :: real
  on_duty_not_driving_hours :: real

text \<open>
  A daily log. \<open>log_date\<close> is the day itself; the program stores its rendering
  \<^verbatim>\<open>current_date.isoformat()\<close>. The keys \<^verbatim>\<open>total_hours\<close> and \<^verbatim>\<open>total_miles\<close> are the
  fields \<open>log_total_hours\<close> and \<open>log_total_miles\<close>.
\<close>

record DailyLog =
  log_date :: date
  day_number :: nat
  entries :: "LogEntry list"
  log_total_hours :: TotalHours
  log_total_miles :: real
  remarks :: "string list"

definition map_duty_status :: "string \<Rightarrow> string" where
  "map_duty_status s =
     (if s = ''off_duty'' then ''off_duty''
      else if s = ''sleeper_berth'' then ''sleeper_berth''
      else if s = ''driving'' then ''driving''
      else if s = ''on_duty_not_driving'' then ''on_duty_not_driving''
      else if s = ''on_duty'' then ''on_duty_not_driving''
      else ''off_duty'')"

definition off_duty_entry :: "real \<Rightarrow> real \<Rightarrow> LogEntry" where
  "off_duty_entry s e =
     \<lparr>status = ''off_duty'', start_hour = s, end_hour = e, entry_segment_type = ''off_duty''\<rparr>"

text \<open>
  The loop \<^verbatim>\<open>for entry in entries\<close> of \<^verbatim>\<open>_fill_gaps\<close>, with \<open>filled\<close> and
  \<open>current_hour\<close>.
\<close>

fun fill_loop :: "LogEntry list \<Rightarrow> LogEntry list \<Rightarrow> real \<Rightarrow> LogEntry list \<times> real" where
  "fill_loop [] filled current_hour = (filled, current_hour)"
| "fill_loop (entry # es) filled current_hour =
     fill_loop es
       ((if current_hour + 1 / 100 < start_hour entry
         then filled @ [off_duty_entry (py_round 4 current_hour) (py_round 4 (start_hour entry))]
         else filled) @ [entry])
       (end_hour entry)"

text \<open>\<^verbatim>\<open>entries.sort(key=...)\<close> is a stable sort, as \<open>sort_key\<close> is.\<close>

definition fill_gaps :: "LogEntry list \<Rightarrow> LogEntry list" where
  "fill_gaps es =
     (if es = [] then [off_duty_entry 0 24]
      else
        (let (filled, current_hour) = fill_loop (sort_key start_hour es) [] 0
         in if current_hour < 2399 / 100
            then filled @ [off_duty_entry (py_round 4 current_hour) 24]
            else filled))"

definition US_PER_MINUTE :: int where
  "US_PER_MINUTE = 60000000"

text \<open>\<^verbatim>\<open>dt.date()\<close>, \<^verbatim>\<open>datetime(d.year, d.month, d.day)\<close> and \<^verbatim>\<open>dt.strftime("%H:%M")\<close>.\<close>

definition date_of :: "datetime \<Rightarrow> date" where
  "date_of t = t div US_PER_DAY"

definition midnight :: "date \<Rightarrow> datetime" where
  "midnight d = d * US_PER_DAY"

definition two_digits :: "int \<Rightarrow> string" where
  "two_digits n = [''0123456789'' ! nat (n div 10), ''0123456789'' ! nat (n mod 10)]"

definition strftime_HM :: "datetime \<Rightarrow> string" where
  "strftime_HM t =
     two_digits ((t mod US_PER_DAY) div US_PER_HOUR) @ '':''
     @ two_digits ((t mod US_PER_HOUR) div US_PER_MINUTE)"

text \<open>
  The loop \<^verbatim>\<open>for seg in segments\<close> for one day, with \<open>day_entries\<close>, \<open>day_miles\<close>
  and \<open>day_remarks\<close>. (The hours it also sums per status are thrown away and computed
  again after the gaps are filled.)
\<close>

fun day_segments ::
  "datetime \<Rightarrow> datetime \<Rightarrow> TripSegment list \<Rightarrow> LogEntry list \<times> real \<times> string list
   \<Rightarrow> LogEntry list \<times> real \<times> string list" where
  "day_segments day_start day_end [] acc = acc"
| "day_segments day_start day_end (seg # segs) (day_entries, day_miles, day_remarks) =
     (let seg_start = max (start_time seg) day_start;
          seg_end = min (end_time seg) day_end
      in if seg_end \<le> seg_start
         then day_segments day_start day_end segs (day_entries, day_miles, day_remarks)
         else
           (let start_hour' = hours_of (seg_start - day_start);
                end_hour' = hours_of (seg_end - day_start);
                status' = map_duty_status (duty_status seg);
                day_entries' = day_entries @
                  [\<lparr>status = status', start_hour = py_round 4 start_hour',
                    end_hour = py_round 4 end_hour',
                    entry_segment_type = segment_type seg\<rparr>];
                duration = end_hour' - start_hour';
                day_miles' =
                  (if duty_status seg = ''driving'' \<and> 0 < distance_miles seg
                   then (let seg_total_hours = duration_hours seg
                         in if 0 < seg_total_hours
                            then day_miles + distance_miles seg * (duration / seg_total_hours)
                            else day_miles)
                   else day_miles);
                day_remarks' =
                  (if reason seg \<noteq> [] \<and> start_time seg \<le> seg_start
                   then day_remarks @ [strftime_HM seg_start @ '' - '' @ reason seg]
                   else day_remarks)
            in day_segments day_start day_end segs (day_entries', day_miles', day_remarks')))"

text \<open>The hours of the entries with a given status (\<open>hours_by_status\<close>).\<close>

definition hours_by_status :: "LogEntry list \<Rightarrow> string \<Rightarrow> real" where
  "hours_by_status es s =
     sum_list (map (\<lambda>e. end_hour e - start_hour e) (filter (\<lambda>e. status e = s) es))"

text \<open>The body of the loop over the days: the log of \<open>current_date\<close>.\<close>

definition day_log :: "TripSegment list \<Rightarrow> date \<Rightarrow> nat \<Rightarrow> DailyLog" where
  "day_log segs current_date day_num =
     (let day_start = midnight current_date;
          day_end = day_start + US_PER_DAY;
          (day_entries, day_miles, day_remarks) =
            day_segments day_start day_end segs ([], 0, []);
          day_entries' = fill_gaps day_entries
      in \<lparr>log_date = current_date, day_number = day_num + 1, entries = day_entries',
          log_total_hours =
            \<lparr>off_duty_hours = py_round 2 (hours_by_status day_entries' ''off_duty''),
             sleeper_berth_hours = py_round 2 (hours_by_status day_entries' ''sleeper_berth''),
             driving_hours_total = py_round 2 (hours_by_status day_entries' ''driving''),
             on_duty_not_driving_hours =
               py_round 2 (hours_by_status day_entries' ''on_duty_not_driving'')\<rparr>,
          log_total_miles = py_round 1 day_miles, remarks = day_remarks\<rparr>)"

text \<open>The loop \<^verbatim>\<open>while current_date <= end_date\<close>.\<close>

function days_loop ::
  "TripSegment list \<Rightarrow> date \<Rightarrow> date \<Rightarrow> nat \<Rightarrow> DailyLog list \<Rightarrow> DailyLog list" where
  "days_loop segs current_date end_date day_num logs =
     (if current_date \<le> end_date
      then days_loop segs (current_date + 1) end_date (day_num + 1)
             (logs @ [day_log segs current_date day_num])
      else logs)"
  by pat_completeness auto
termination
  by (relation "measure (\<lambda>(segs, current_date, end_date, day_num, logs).
        nat (end_date + 1 - current_date))") auto

declare days_loop.simps [simp del]

text \<open>\<open>trip_start_date\<close> is \<open>None\<close> or a date (every date is true).\<close>

definition generate_eld_logs :: "TripSegment list \<Rightarrow> date option \<Rightarrow> DailyLog list" where
  "generate_eld_logs segs trip_start_date =
     (if segs = [] then []
      else
        (let first_start = start_time (hd segs);
             last_end = end_time (last segs);
             start_date = (case trip_start_date of Some d \<Rightarrow> d | None \<Rightarrow> date_of first_start);
             end_date = date_of last_end
         in days_loop segs start_date end_date 0 []))"

section \<open>Properties of a planned trip\<close>

text \<open>The four limits of the ledger.\<close>

definition within_limits :: "HOSState \<Rightarrow> bool" where
  "within_limits s \<longleftrightarrow>
     driving_hours s \<le> 11 \<and> window_hours s \<le> 14 \<and> hours_since_break s \<le> 8
     \<and> cycle_hours s \<le> 70"

text \<open>Every drive segment of a list of events left the ledger within its limits.\<close>

definition drives_within_limits :: "event list \<Rightarrow> bool" where
  "drives_within_limits evs \<longleftrightarrow>
     (\<forall>(seg, st) \<in> set evs. segment_type seg = ''drive'' \<longrightarrow> within_limits st)"

text \<open>
  A list of segments is contiguous from \<open>t\<close>: the first starts at \<open>t\<close> and each one
  starts when the one before ends. \<open>end_of t segs\<close> is where the list ends.
\<close>

fun contiguous_from :: "datetime \<Rightarrow> TripSegment list \<Rightarrow> bool" where
  "contiguous_from t [] = True"
| "contiguous_from t (s # ss) = (start_time s = t \<and> contiguous_from (end_time s) ss)"

definition end_of :: "datetime \<Rightarrow> TripSegment list \<Rightarrow> datetime" where
  "end_of t segs = (if segs = [] then t else end_time (last segs))"

text \<open>No emitted segment ends before it starts.\<close>

definition forward :: "event list \<Rightarrow> bool" where
  "forward evs \<longleftrightarrow> (\<forall>(s, st) \<in> set evs. start_time s \<le> end_time s)"

text \<open>The miles of the drive segments of a list.\<close>

definition drive_miles :: "TripSegment list \<Rightarrow> real" where
  "drive_miles segs =
     sum_list (map distance_miles (filter (\<lambda>s. segment_type s = ''drive'') segs))"

text \<open>Two invariants of the planning loop: the segments so far form a timeline that ends
  at \<open>current_time\<close>, and the miles driven and the miles remaining add up to the leg.\<close>

definition on_timeline :: "datetime \<Rightarrow> plan_vars \<Rightarrow> bool" where
  "on_timeline t0 v \<longleftrightarrow>
     contiguous_from t0 (map fst (segments v))
     \<and> end_of t0 (map fst (segments v)) = current_time v"

definition miles_accounted :: "real \<Rightarrow> plan_vars \<Rightarrow> bool" where
  "miles_accounted tm v \<longleftrightarrow>
     drive_miles (map fst (segments v)) + miles_remaining v = tm
     \<and> 0 \<le> miles_remaining v"

text \<open>A short trip for the examples: one leg of 110 miles to the pickup.\<close>

definition example_place :: location where
  "example_place = \<lparr>lat = 0, lng = 0, name = ''''\<rparr>"

definition example_leg :: RouteLeg where
  "example_leg =
     \<lparr>leg_type = ''drive_to_pickup'', leg_start_location = example_place,
      leg_end_location = example_place, leg_distance_miles = 110, leg_duration_hours = 2\<rparr>"

definition example_drive :: TripSegment where
  "example_drive =
     \<lparr>segment_type = ''drive'', duty_status = ''driving'', start_time = 0,
      end_time = 7200000000, start_location = Some example_place,
      end_location = Some example_place, distance_miles = 110, reason = ''Driving''\<rparr>"

definition example_pickup :: TripSegment where
  "example_pickup =
     \<lparr>segment_type = ''pickup'', duty_status = ''on_duty_not_driving'',
      start_time = 7200000000, end_time = 10800000000, start_location = Some example_place,
      end_location = Some example_place, distance_miles = 0, reason = ''Pickup - Loading''\<rparr>"

definition example_events :: "event list" where
  "example_events =
     [(example_drive,
       \<lparr>driving_hours = 2, window_hours = 2, hours_since_break = 2, cycle_hours = 2,
        on_duty = True\<rparr>),
      (example_pickup,
       \<lparr>driving_hours = 2, window_hours = 3, hours_since_break = 2, cycle_hours = 3,
        on_duty = True\<rparr>)]"

definition example_vars :: plan_vars where
  "example_vars =
     \<lparr>state = HOSState_init 0, segments = [], miles_remaining = 110, current_time = 0,
      miles_since_fuel = 0\<rparr>"

text \<open>Two legs of 560 miles, to the pickup and on to the dropoff.\<close>

definition long_haul_legs :: "RouteLeg list" where
  "long_haul_legs =
     [example_leg\<lparr>leg_distance_miles := 560\<rparr>,
      example_leg\<lparr>leg_type := ''drive_to_dropoff'', leg_distance_miles := 560\<rparr>]"

text \<open>A 10-hour rest from 20:00 on day 1 to 06:00 on day 2.\<close>

definition night_rest :: TripSegment where
  "night_rest = \<lparr>segment_type = ''rest'', duty_status = ''off_duty'',
      start_time = 158400000000, end_time = 194400000000,
      start_location = None, end_location = None, distance_miles = 0,
      reason = ''Required 10-hour rest''\<rparr>"

subsection \<open>Properties of a daily log\<close>

text \<open>
  The entries of a day form a chain when each start stands in the relation \<open>R\<close> to the
  end before it (to \<open>c\<close> for the first entry); \<open>last_end c es\<close> is where the chain ends.
  An entry is within the day when it runs forward between 0 and 24 and is rounded to four
  decimals.
\<close>

fun chained :: "(real \<Rightarrow> real \<Rightarrow> bool) \<Rightarrow> real \<Rightarrow> LogEntry list \<Rightarrow> bool" where
  "chained R c [] = True"
| "chained R c (e # es) = (R c (start_hour e) \<and> chained R (end_hour e) es)"

definition last_end :: "real \<Rightarrow> LogEntry list \<Rightarrow> real" where
  "last_end c es = (if es = [] then c else end_hour (last es))"

definition entry_ok :: "LogEntry \<Rightarrow> bool" where
  "entry_ok e \<longleftrightarrow>
     0 \<le> start_hour e \<and> start_hour e \<le> end_hour e \<and> end_hour e \<le> 24
     \<and> py_round 4 (start_hour e) = start_hour e \<and> py_round 4 (end_hour e) = end_hour e"

text \<open>What the filling loop keeps true of \<open>filled\<close> and \<open>current_hour\<close>.\<close>

definition filled_ok :: "real \<Rightarrow> LogEntry list \<Rightarrow> real \<Rightarrow> bool" where
  "filled_ok lo filled cur \<longleftrightarrow>
     (\<forall>x\<in>set filled. entry_ok x \<and> start_hour x \<le> lo)
     \<and> sorted (map start_hour filled)
     \<and> chained (\<lambda>c s. s \<le> c + 1 / 100) 0 filled
     \<and> last_end 0 filled = cur
     \<and> lo \<le> cur \<and> 0 \<le> cur \<and> cur \<le> 24 \<and> py_round 4 cur = cur"

text \<open>
  Segments are chronological when every segment ends before the ones after it start. The
  partition of [0, 24] as the specification words it is \<open>tiles_day\<close>.
\<close>

definition chronological :: "TripSegment list \<Rightarrow> bool" where
  "chronological segs \<longleftrightarrow> sorted_wrt (\<lambda>a b. end_time a \<le> start_time b) segs"

definition tiles_day :: "LogEntry list \<Rightarrow> bool" where
  "tiles_day es \<longleftrightarrow>
     es \<noteq> [] \<and> sorted (map start_hour es)
     \<and> (\<forall>(a, b) \<in> set (zip es (tl es)). \<bar>end_hour a - start_hour b\<bar> \<le> 1 / 100)
     \<and> start_hour (hd es) = 0 \<and> end_hour (last es) = 24"

definition overlapping_shifts :: "TripSegment list" where
  "overlapping_shifts =
     [night_rest\<lparr>start_time := 30000000, end_time := 43200000000\<rparr>,
      night_rest\<lparr>start_time := 21600000000, end_time := 86385000000\<rparr>]"

definition example_log :: DailyLog where
  "example_log = hd (generate_eld_logs [example_drive, example_pickup] None)"

subsection \<open>Rounding is monotone\<close>

lemma round_half_even_of_int [simp]: "round_half_even (of_int k) = k"
  by (simp add: round_half_even_def)

lemma round_half_even_cases:
  "round_half_even x = \<lfloor>x\<rfloor> \<and> x - of_int \<lfloor>x\<rfloor> \<le> 1 / 2
   \<or> round_half_even x = \<lfloor>x\<rfloor> + 1 \<and> 1 / 2 \<le> x - of_int \<lfloor>x\<rfloor>"
  by (auto simp: round_half_even_def Let_def)

lemma round_half_even_mono:
  assumes "x \<le> y"
  shows "round_half_even x \<le> round_half_even y"
proof (cases "\<lfloor>x\<rfloor> = \<lfloor>y\<rfloor>")
  case True
  then show ?thesis using assms
    by (auto simp: round_half_even_def Let_def)
next
  case False
  then have "\<lfloor>x\<rfloor> + 1 \<le> \<lfloor>y\<rfloor>" using floor_mono [OF assms] by simp
  then show ?thesis
    using round_half_even_cases [of x] round_half_even_cases [of y] by linarith
qed

lemma py_round_mono: "x \<le> y \<Longrightarrow> py_round n x \<le> py_round n y"
  by (simp add: py_round_def divide_right_mono round_half_even_mono)

lemma py_round_of_int [simp]: "py_round n (of_int k) = of_int k"
proof -
  have "of_int k * (10::real) ^ n = of_int (k * 10 ^ n)" by simp
  then have "round_half_even (of_int k * 10 ^ n) = k * 10 ^ n"
    by (simp only: round_half_even_of_int)
  then show ?thesis by (simp add: py_round_def)
qed

lemma py_round_idem [simp]: "py_round n (py_round n x) = py_round n x"
  by (simp add: py_round_def)

lemma py_round_0 [simp]: "py_round n 0 = 0"
  using py_round_of_int [of n 0] by simp

lemma py_round_24 [simp]: "py_round n 24 = 24"
  using py_round_of_int [of n 24] by simp

lemma hours_of_mono: "a \<le> b \<Longrightarrow> hours_of a \<le> hours_of b"
  by (simp add: hours_of_def US_PER_HOUR_def divide_right_mono)

lemma hours_of_0 [simp]: "hours_of 0 = 0"
  by (simp add: hours_of_def)

lemma hours_of_day [simp]: "hours_of US_PER_DAY = 24"
  by (simp add: hours_of_def US_PER_DAY_def US_PER_HOUR_def)

lemma round_half_even_0 [simp]: "round_half_even 0 = 0"
  using round_half_even_of_int [of 0] by simp

lemma timedelta_hours_nonneg: "0 \<le> h \<Longrightarrow> 0 \<le> timedelta_hours h"
  using round_half_even_mono [of 0 "h * of_int US_PER_HOUR"]
  by (simp add: timedelta_hours_def US_PER_HOUR_def)

subsection \<open>Invariants of the planning loop\<close>

lemma plan_loop_invariant:
  assumes "I v"
    and step: "\<And>v. I v \<Longrightarrow> 1 / 10 < miles_remaining v \<Longrightarrow> I (plan_iteration sl el tm v)"
  shows "I (plan_loop sl el tm v) \<and> miles_remaining (plan_loop sl el tm v) \<le> 1 / 10"
  using assms
proof (induction sl el tm v rule: plan_loop.induct)
  case (1 sl el tm v)
  show ?case
  proof (cases "1 / 10 < miles_remaining v")
    case True
    have eq: "plan_loop sl el tm v = plan_loop sl el tm (plan_iteration sl el tm v)"
      using True by (subst plan_loop.simps) simp
    have "I (plan_iteration sl el tm v)" using "1.prems"(1) True by (rule "1.prems"(2))
    then show ?thesis unfolding eq using "1.prems"(2) by (rule "1.IH" [OF True])
  next
    case False
    then have "plan_loop sl el tm v = v" by (subst plan_loop.simps) simp
    then show ?thesis using "1.prems"(1) False by simp
  qed
qed

lemma plan_interruption_emits:
  "\<exists>seg. segments (plan_interruption sl el tm v)
       = segments v @ [(seg, state (plan_interruption sl el tm v))]
    \<and> (segment_type seg = ''rest'' \<or> segment_type seg = ''break'')
    \<and> start_time seg = current_time v
    \<and> end_time seg = current_time (plan_interruption sl el tm v)
    \<and> distance_miles seg = 0"
  by (simp add: plan_interruption_def Let_def)

lemma plan_drive_emits:
  "\<exists>d f. segments (plan_drive sl el tm nf m h v) = segments v @ (d, add_driving h (state v)) # f
    \<and> segment_type d = ''drive'' \<and> distance_miles d = m \<and> start_time d = current_time v
    \<and> (f = [] \<and> end_time d = current_time (plan_drive sl el tm nf m h v)
     \<or> (\<exists>s. f = [(s, state (plan_drive sl el tm nf m h v))] \<and> segment_type s = ''fuel''
          \<and> distance_miles s = 0 \<and> start_time s = end_time d
          \<and> end_time s = current_time (plan_drive sl el tm nf m h v)))"
  by (simp add: plan_drive_def Let_def)

lemma within_limits_add_driving:
  assumes "0 < remaining_driving s" "h \<le> remaining_driving s"
  shows "within_limits (add_driving h s)"
proof -
  define x where "x = remaining_driving s"
  have "x \<le> 11 - driving_hours s" "x \<le> 14 - window_hours s"
    "x \<le> 8 - hours_since_break s" "x \<le> 70 - cycle_hours s"
    unfolding x_def remaining_driving_pos(1) [OF assms(1)] by simp_all
  then show ?thesis using assms(2) unfolding x_def [symmetric]
    by (simp add: within_limits_def add_driving_def)
qed

lemma drives_within_limits_iteration:
  assumes "drives_within_limits (segments v)"
  shows "drives_within_limits (segments (plan_iteration sl el tm v))"
proof (cases "0 < remaining_driving (state v)")
  case True
  then obtain nf m where
    it: "plan_iteration sl el tm v = plan_drive sl el tm nf m (m / 55) v"
    and le: "m \<le> remaining_driving (state v) * 55"
    by (rule plan_iteration_drives) blast
  from le have "m / 55 \<le> remaining_driving (state v)" by simp
  then have "within_limits (add_driving (m / 55) (state v))"
    using True by (intro within_limits_add_driving)
  then show ?thesis
    using assms plan_drive_emits [of sl el tm nf m "m / 55" v]
    unfolding it drives_within_limits_def by auto
next
  case False
  then have "plan_iteration sl el tm v = plan_interruption sl el tm v"
    by (simp add: plan_iteration_interrupts)
  then show ?thesis
    using assms plan_interruption_emits [of sl el tm v]
    unfolding drives_within_limits_def by auto
qed

lemma drives_within_limits_plan:
  "drives_within_limits (fst (plan_driving_segment st t sl el tm th))"
proof -
  let ?v = "\<lparr>state = st, segments = [], miles_remaining = tm, current_time = t,
             miles_since_fuel = 0\<rparr>"
  have "drives_within_limits (segments (plan_loop sl el tm ?v))
      \<and> miles_remaining (plan_loop sl el tm ?v) \<le> 1 / 10"
    by (rule plan_loop_invariant)
      (simp_all add: drives_within_limits_iteration, simp add: drives_within_limits_def)
  then show ?thesis by (simp add: plan_driving_segment_def Let_def)
qed

lemma check_and_add_rest_emits:
  "\<exists>r st'. check_and_add_rest_if_needed st segs t loc = (segs @ r, st')
     \<and> (r = [] \<or> (\<exists>seg. r = [(seg, st')] \<and> segment_type seg = ''rest''
            \<and> start_time seg = t \<and> distance_miles seg = 0
            \<and> start_time seg \<le> end_time seg))"
  by (simp add: check_and_add_rest_if_needed_def Let_def timedelta_hours_nonneg hos_constants)

lemma drives_within_limits_append:
  "drives_within_limits (xs @ ys) \<longleftrightarrow> drives_within_limits xs \<and> drives_within_limits ys"
  by (auto simp: drives_within_limits_def)

lemma calculate_trip_legs_step:
  assumes out: "calculate_trip_legs (leg # legs) st segs t = Inr out"
  obtains
    (skip) "leg_type leg \<noteq> ''drive_to_pickup''" "leg_type leg \<noteq> ''drive_to_dropoff''"
      "calculate_trip_legs legs st segs t = Inr out"
  | (stop) new st1 r st2 s st3 where
      "plan_driving_segment st t (leg_start_location leg) (leg_end_location leg)
         (leg_distance_miles leg) (leg_distance_miles leg / AVG_SPEED_MPH) = (new, st1)"
      "segs @ new \<noteq> []"
      "r = [] \<or> (\<exists>seg. r = [(seg, st2)] \<and> segment_type seg = ''rest''
            \<and> start_time seg = end_time (fst (last (segs @ new))) \<and> distance_miles seg = 0
            \<and> start_time seg \<le> end_time seg)"
      "segment_type s = ''pickup'' \<or> segment_type s = ''dropoff''"
      "start_time s = end_time (fst (last (segs @ new @ r)))"
      "distance_miles s = 0"
      "calculate_trip_legs legs st3 (segs @ new @ r @ [(s, st3)]) (end_time s) = Inr out"
      "start_time s \<le> end_time s"
proof -
  obtain new st1 where p: "plan_driving_segment st t (leg_start_location leg)
      (leg_end_location leg) (leg_distance_miles leg) (leg_distance_miles leg / AVG_SPEED_MPH)
      = (new, st1)" by force
  obtain r st2 where c: "check_and_add_rest_if_needed st1 (segs @ new)
      (end_time (fst (last (segs @ new)))) (leg_end_location leg) = ((segs @ new) @ r, st2)"
    and r: "r = [] \<or> (\<exists>seg. r = [(seg, st2)] \<and> segment_type seg = ''rest''
            \<and> start_time seg = end_time (fst (last (segs @ new))) \<and> distance_miles seg = 0
            \<and> start_time seg \<le> end_time seg)"
    using check_and_add_rest_emits [of st1 "segs @ new" "end_time (fst (last (segs @ new)))"
        "leg_end_location leg"] by blast
  have last_r: "segs @ new \<noteq> [] \<Longrightarrow>
      (if (segs @ new) @ r \<noteq> [] then end_time (fst (last ((segs @ new) @ r)))
       else end_time (fst (last (segs @ new)))) = end_time (fst (last (segs @ new @ r)))"
    by simp
  consider (pickup) "leg_type leg = ''drive_to_pickup''"
    | (dropoff) "leg_type leg \<noteq> ''drive_to_pickup''" "leg_type leg = ''drive_to_dropoff''"
    | (other) "leg_type leg \<noteq> ''drive_to_pickup''" "leg_type leg \<noteq> ''drive_to_dropoff''"
    by blast
  then show thesis
  proof cases
    case pickup
    have ne: "segs @ new \<noteq> []"
      using out pickup p by (auto simp: Let_def)
    let ?t2 = "end_time (fst (last (segs @ new @ r)))"
    let ?s = "\<lparr>segment_type = ''pickup'', duty_status = ON_DUTY, start_time = ?t2,
               end_time = ?t2 + timedelta_hours PICKUP_DURATION_HOURS,
               start_location = Some (leg_end_location leg),
               end_location = Some (leg_end_location leg),
               distance_miles = 0, reason = ''Pickup - Loading''\<rparr>"
    have "calculate_trip_legs legs (add_on_duty PICKUP_DURATION_HOURS st2)
            (segs @ new @ r @ [(?s, add_on_duty PICKUP_DURATION_HOURS st2)]) (end_time ?s)
          = Inr out"
      using out pickup p c ne last_r [OF ne] by (simp add: Let_def split: if_splits)
    then show ?thesis
      using p ne r
      by (intro stop [where s = ?s and r = r and ?st2.0 = st2])
        (simp_all add: timedelta_hours_nonneg hos_constants)
  next
    case dropoff
    have ne: "segs @ new \<noteq> []"
      using out dropoff p by (auto simp: Let_def)
    let ?t2 = "end_time (fst (last (segs @ new @ r)))"
    let ?s = "\<lparr>segment_type = ''dropoff'', duty_status = ON_DUTY, start_time = ?t2,
               end_time = ?t2 + timedelta_hours DROPOFF_DURATION_HOURS,
               start_location = Some (leg_end_location leg),
               end_location = Some (leg_end_location leg),
               distance_miles = 0, reason = ''Dropoff - Unloading''\<rparr>"
    have "calculate_trip_legs legs (add_on_duty DROPOFF_DURATION_HOURS st2)
            (segs @ new @ r @ [(?s, add_on_duty DROPOFF_DURATION_HOURS st2)]) (end_time ?s)
          = Inr out"
      using out dropoff p c ne last_r [OF ne] by (simp add: Let_def split: if_splits)
    then show ?thesis
      using p ne r
      by (intro stop [where s = ?s and r = r and ?st2.0 = st2])
        (simp_all add: timedelta_hours_nonneg hos_constants)
  next
    case other
    then show ?thesis using out by (intro skip) (simp_all add: Let_def)
  qed
qed

lemma drives_within_limits_legs:
  assumes "calculate_trip_legs legs st segs t = Inr out" "drives_within_limits segs"
  shows "drives_within_limits out"
  using assms
proof (induction legs arbitrary: st segs t)
  case Nil
  then show ?case by simp
next
  case (Cons leg legs)
  from Cons.prems(1) show ?case
  proof (cases rule: calculate_trip_legs_step)
    case skip
    then show ?thesis using Cons.IH Cons.prems(2) by blast
  next
    case (stop new st1 r st2 s st3)
    have "drives_within_limits new"
      using drives_within_limits_plan [of st t "leg_start_location leg" "leg_end_location leg"
          "leg_distance_miles leg" "leg_distance_miles leg / AVG_SPEED_MPH"]
      by (simp add: stop(1))
    moreover have "drives_within_limits r"
      using stop(3) by (auto simp: drives_within_limits_def)
    moreover have "drives_within_limits [(s, st3)]"
      using stop(4) by (auto simp: drives_within_limits_def)
    ultimately have "drives_within_limits (segs @ new @ r @ [(s, st3)])"
      using Cons.prems(2) by (simp add: drives_within_limits_append)
    then show ?thesis using Cons.IH stop(7) by blast
  qed
qed

lemma end_of_append: "end_of t (xs @ ys) = end_of (end_of t xs) ys"
  by (simp add: end_of_def)

lemma contiguous_from_append:
  "contiguous_from t (xs @ ys) \<longleftrightarrow> contiguous_from t xs \<and> contiguous_from (end_of t xs) ys"
  by (induction xs arbitrary: t) (auto simp: end_of_def)

lemma contiguous_from_snoc:
  "contiguous_from t (xs @ [s]) \<longleftrightarrow> contiguous_from t xs \<and> start_time s = end_of t xs"
  by (auto simp: contiguous_from_append)

lemma end_of_events: "evs \<noteq> [] \<Longrightarrow> end_of t (map fst evs) = end_time (fst (last evs))"
  by (simp add: end_of_def last_map)

lemma contiguous_from_nth:
  "contiguous_from t segs \<Longrightarrow> Suc i < length segs \<Longrightarrow>
   end_time (segs ! i) = start_time (segs ! Suc i)"
proof (induction segs arbitrary: t i)
  case Nil
  then show ?case by simp
next
  case (Cons s segs)
  show ?case
  proof (cases i)
    case 0
    then show ?thesis using Cons.prems by (cases segs) auto
  next
    case (Suc j)
    then show ?thesis using Cons.prems Cons.IH [of "end_time s" j] by simp
  qed
qed

lemma drive_miles_append: "drive_miles (xs @ ys) = drive_miles xs + drive_miles ys"
  by (simp add: drive_miles_def)

lemma on_timeline_iteration:
  assumes "on_timeline t0 v"
  shows "on_timeline t0 (plan_iteration sl el tm v)"
proof (cases "0 < remaining_driving (state v)")
  case True
  then obtain nf m where
    it: "plan_iteration sl el tm v = plan_drive sl el tm nf m (m / 55) v"
    by (rule plan_iteration_drives) blast
  show ?thesis
    using assms plan_drive_emits [of sl el tm nf m "m / 55" v]
    unfolding it on_timeline_def
    by (auto simp: contiguous_from_append end_of_append) (simp_all add: end_of_def)
next
  case False
  then have "plan_iteration sl el tm v = plan_interruption sl el tm v"
    by (simp add: plan_iteration_interrupts)
  then show ?thesis
    using assms plan_interruption_emits [of sl el tm v]
    unfolding on_timeline_def
    by (auto simp: contiguous_from_append end_of_append) (simp_all add: end_of_def)
qed

lemma contiguous_plan:
  "contiguous_from t (map fst (fst (plan_driving_segment st t sl el tm th)))"
proof -
  let ?v = "\<lparr>state = st, segments = [], miles_remaining = tm, current_time = t,
             miles_since_fuel = 0\<rparr>"
  have "on_timeline t (plan_loop sl el tm ?v)
      \<and> miles_remaining (plan_loop sl el tm ?v) \<le> 1 / 10"
    by (rule plan_loop_invariant)
      (simp_all add: on_timeline_iteration, simp add: on_timeline_def end_of_def)
  then show ?thesis by (simp add: plan_driving_segment_def Let_def on_timeline_def)
qed

lemma contiguous_legs:
  assumes "calculate_trip_legs legs st segs t = Inr out"
    and "contiguous_from T (map fst segs)" and "end_of T (map fst segs) = t"
  shows "contiguous_from T (map fst out)"
  using assms
proof (induction legs arbitrary: st segs t)
  case Nil
  then show ?case by simp
next
  case (Cons leg legs)
  from Cons.prems(1) show ?case
  proof (cases rule: calculate_trip_legs_step)
    case skip
    then show ?thesis using Cons.IH Cons.prems(2,3) by blast
  next
    case (stop new st1 r st2 s st3)
    let ?segs3 = "segs @ new @ r @ [(s, st3)]"
    have new: "contiguous_from t (map fst new)"
      using contiguous_plan [of t st "leg_start_location leg" "leg_end_location leg"
          "leg_distance_miles leg" "leg_distance_miles leg / AVG_SPEED_MPH"]
      by (simp add: stop(1))
    have e1: "end_of T (map fst (segs @ new)) = end_time (fst (last (segs @ new)))"
      using stop(2) by (rule end_of_events)
    have c1: "contiguous_from T (map fst (segs @ new))"
      using Cons.prems(2,3) new by (simp add: contiguous_from_append)
    have c2: "contiguous_from T (map fst (segs @ new @ r))"
    proof (cases "r = []")
      case True
      then show ?thesis using c1 by simp
    next
      case False
      then obtain seg where seg: "r = [(seg, st2)]"
        "start_time seg = end_time (fst (last (segs @ new)))"
        using stop(3) by blast
      have "contiguous_from T (map fst (segs @ new) @ [seg])"
        unfolding contiguous_from_snoc using c1 e1 seg(2) by simp
      then show ?thesis by (simp add: seg(1))
    qed
    have ne: "segs @ new @ r \<noteq> []" using stop(2) by auto
    have e2: "end_of T (map fst (segs @ new @ r)) = end_time (fst (last (segs @ new @ r)))"
      using ne by (rule end_of_events)
    have "contiguous_from T (map fst (segs @ new @ r) @ [s])"
      unfolding contiguous_from_snoc using c2 e2 stop(5) by simp
    then have c3: "contiguous_from T (map fst ?segs3)" by simp
    have e3: "end_of T (map fst ?segs3) = end_time s" by (simp add: end_of_def)
    show ?thesis using Cons.IH [OF stop(7) c3 e3] .
  qed
qed

lemma miles_accounted_iteration:
  assumes "miles_accounted tm v"
  shows "miles_accounted tm (plan_iteration sl el tm v)"
proof (cases "0 < remaining_driving (state v)")
  case True
  then obtain nf m where
    it: "plan_iteration sl el tm v = plan_drive sl el tm nf m (m / 55) v"
    and le: "m \<le> miles_remaining v"
    by (rule plan_iteration_drives) blast
  show ?thesis
    using assms le plan_drive_emits [of sl el tm nf m "m / 55" v]
    unfolding it miles_accounted_def
    by (auto simp: drive_miles_append plan_drive_fields(1)) (simp_all add: drive_miles_def)
next
  case False
  then have "plan_iteration sl el tm v = plan_interruption sl el tm v"
    by (simp add: plan_iteration_interrupts)
  then show ?thesis
    using assms plan_interruption_emits [of sl el tm v]
    unfolding miles_accounted_def
    by (auto simp: drive_miles_append interruption_fields(1)) (simp_all add: drive_miles_def)
qed

lemma drive_miles_plan:
  assumes "0 \<le> tm"
  shows "tm - 1 / 10 \<le> drive_miles (map fst (fst (plan_driving_segment st t sl el tm th)))"
    and "drive_miles (map fst (fst (plan_driving_segment st t sl el tm th))) \<le> tm"
proof -
  let ?v = "\<lparr>state = st, segments = [], miles_remaining = tm, current_time = t,
             miles_since_fuel = 0\<rparr>"
  have "miles_accounted tm (plan_loop sl el tm ?v)
      \<and> miles_remaining (plan_loop sl el tm ?v) \<le> 1 / 10"
    by (rule plan_loop_invariant)
      (simp_all add: miles_accounted_iteration, simp add: miles_accounted_def drive_miles_def assms)
  then show "tm - 1 / 10 \<le> drive_miles (map fst (fst (plan_driving_segment st t sl el tm th)))"
    and "drive_miles (map fst (fst (plan_driving_segment st t sl el tm th))) \<le> tm"
    by (simp_all add: plan_driving_segment_def Let_def miles_accounted_def)
qed

lemma plan_loop_iterations:
  "\<exists>n\<le>plan_measure v. plan_loop sl el tm v = (plan_iteration sl el tm ^^ n) v
      \<and> miles_remaining (plan_loop sl el tm v) \<le> 1 / 10"
proof (induction sl el tm v rule: plan_loop.induct)
  case (1 sl el tm v)
  show ?case
  proof (cases "1 / 10 < miles_remaining v")
    case True
    let ?v' = "plan_iteration sl el tm v"
    have eq: "plan_loop sl el tm v = plan_loop sl el tm ?v'"
      using True by (subst plan_loop.simps) simp
    from "1.IH" [OF True] obtain n where n: "n \<le> plan_measure ?v'"
      "plan_loop sl el tm ?v' = (plan_iteration sl el tm ^^ n) ?v'"
      "miles_remaining (plan_loop sl el tm ?v') \<le> 1 / 10" by blast
    have "Suc n \<le> plan_measure v"
      using n(1) plan_measure_decreases [OF True, of sl el tm] by simp
    moreover have "plan_loop sl el tm v = (plan_iteration sl el tm ^^ Suc n) v"
      unfolding eq n(2) by (simp add: funpow_swap1)
    ultimately show ?thesis using n(3) eq by metis
  next
    case False
    then have "plan_loop sl el tm v = v" by (subst plan_loop.simps) simp
    then have "plan_loop sl el tm v = (plan_iteration sl el tm ^^ 0) v
      \<and> miles_remaining (plan_loop sl el tm v) \<le> 1 / 10"
      using False by simp
    then show ?thesis by blast
  qed
qed

lemma plan_iteration_progress:
  assumes "1 / 10 < miles_remaining v"
  shows "if 0 < remaining_driving (state v)
         then miles_remaining (plan_iteration sl el tm v) < miles_remaining v
         else miles_remaining (plan_iteration sl el tm v) = miles_remaining v
              \<and> 0 < remaining_driving (state (plan_iteration sl el tm v))"
proof (cases "0 < remaining_driving (state v)")
  case True
  then obtain nf m where
    it: "plan_iteration sl el tm v = plan_drive sl el tm nf m (m / 55) v"
    and pos: "0 < miles_remaining v \<Longrightarrow> 0 < m"
    by (rule plan_iteration_drives) blast
  from pos assms have "0 < m" by simp
  then show ?thesis using True by (simp add: it plan_drive_fields(1))
next
  case False
  then show ?thesis
    by (simp add: plan_iteration_interrupts interruption_fields(1) interruption_restores)
qed

subsection \<open>The days of the log\<close>

lemma log_date_day_log [simp]: "log_date (day_log segs d n) = d"
  by (simp add: day_log_def Let_def split: prod.splits)

lemma days_loop_dates:
  "map log_date (days_loop segs cur end_date n logs) = map log_date logs @ [cur..end_date]"
proof (induction segs cur end_date n logs rule: days_loop.induct)
  case (1 segs cur end_date n logs)
  show ?case
  proof (cases "cur \<le> end_date")
    case True
    have "days_loop segs cur end_date n logs
        = days_loop segs (cur + 1) end_date (n + 1) (logs @ [day_log segs cur n])"
      using True by (subst days_loop.simps) simp
    then show ?thesis using "1.IH" [OF True] True by (simp add: upto_rec1)
  next
    case False
    then have "days_loop segs cur end_date n logs = logs" by (subst days_loop.simps) simp
    then show ?thesis using False by simp
  qed
qed

subsection \<open>Filling the gaps of a day\<close>

lemma last_end_append: "last_end c (xs @ ys) = last_end (last_end c xs) ys"
  by (simp add: last_end_def)

lemma chained_append:
  "chained R c (xs @ ys) \<longleftrightarrow> chained R c xs \<and> chained R (last_end c xs) ys"
  by (induction xs arbitrary: c) (auto simp: last_end_def)

lemma chained_pairs:
  "chained R c es \<Longrightarrow> (a, b) \<in> set (zip es (tl es)) \<Longrightarrow> R (end_hour a) (start_hour b)"
proof (induction es arbitrary: c)
  case Nil
  then show ?case by simp
next
  case (Cons e es)
  then show ?case by (cases es) auto
qed

lemma chained_hd: "chained R c es \<Longrightarrow> es \<noteq> [] \<Longrightarrow> R c (start_hour (hd es))"
  by (cases es) auto

lemma entry_ok_off_duty:
  "0 \<le> a \<Longrightarrow> a \<le> b \<Longrightarrow> b \<le> 24 \<Longrightarrow> py_round 4 a = a \<Longrightarrow> py_round 4 b = b \<Longrightarrow>
   entry_ok (off_duty_entry a b)"
  by (simp add: entry_ok_def off_duty_entry_def)

lemma filled_ok_step:
  assumes inv: "filled_ok lo filled cur" and e: "entry_ok e" and lo: "lo \<le> start_hour e"
  shows "filled_ok (start_hour e)
     ((if cur + 1 / 100 < start_hour e
       then filled @ [off_duty_entry (py_round 4 cur) (py_round 4 (start_hour e))]
       else filled) @ [e])
     (end_hour e)"
proof (cases "cur + 1 / 100 < start_hour e")
  case True
  let ?g = "off_duty_entry cur (start_hour e)"
  have r: "py_round 4 cur = cur" "py_round 4 (start_hour e) = start_hour e"
    using inv e by (simp_all add: filled_ok_def entry_ok_def)
  have g: "entry_ok ?g"
    using inv e True by (intro entry_ok_off_duty) (simp_all add: filled_ok_def entry_ok_def)
  have gs: "start_hour ?g = cur" "end_hour ?g = start_hour e"
    by (simp_all add: off_duty_entry_def)
  have "filled_ok (start_hour e) (filled @ [?g] @ [e]) (end_hour e)"
    unfolding filled_ok_def
    using inv e lo True g gs
    by (auto simp: filled_ok_def entry_ok_def sorted_append chained_append last_end_def)
  then show ?thesis using True by (simp add: r)
next
  case False
  have "filled_ok (start_hour e) (filled @ [e]) (end_hour e)"
    unfolding filled_ok_def
    using inv e lo False
    by (auto simp: filled_ok_def entry_ok_def sorted_append chained_append last_end_def)
  then show ?thesis using False by simp
qed

lemma fill_loop_ok:
  assumes "filled_ok lo filled cur" and "\<forall>e\<in>set es. entry_ok e"
    and "sorted (map start_hour es)" and "\<forall>e\<in>set es. lo \<le> start_hour e"
  shows "\<exists>lo'. filled_ok lo' (fst (fill_loop es filled cur)) (snd (fill_loop es filled cur))"
  using assms
proof (induction es arbitrary: lo filled cur)
  case Nil
  then show ?case by auto
next
  case (Cons e es)
  have "filled_ok (start_hour e)
     ((if cur + 1 / 100 < start_hour e
       then filled @ [off_duty_entry (py_round 4 cur) (py_round 4 (start_hour e))]
       else filled) @ [e])
     (end_hour e)"
  proof (rule filled_ok_step)
    show "filled_ok lo filled cur" by (rule Cons.prems(1))
    show "entry_ok e" using Cons.prems(2) by simp
    show "lo \<le> start_hour e" using Cons.prems(4) by simp
  qed
  moreover have "\<forall>x\<in>set es. start_hour e \<le> start_hour x"
    using Cons.prems(3) by simp
  ultimately show ?case
    using Cons.IH Cons.prems(2,3) by simp
qed

lemma fill_loop_nonempty: "es \<noteq> [] \<or> filled \<noteq> [] \<Longrightarrow> fst (fill_loop es filled cur) \<noteq> []"
  by (induction es arbitrary: filled cur) auto

lemma fill_loop_ordered:
  assumes "chained (\<le>) 0 filled" and "last_end 0 filled = cur" and "chained (\<le>) cur es"
    and "py_round 4 cur = cur" and "\<forall>e\<in>set es. entry_ok e"
  shows "chained (\<le>) 0 (fst (fill_loop es filled cur))
    \<and> last_end 0 (fst (fill_loop es filled cur)) = snd (fill_loop es filled cur)
    \<and> py_round 4 (snd (fill_loop es filled cur)) = snd (fill_loop es filled cur)"
  using assms
proof (induction es arbitrary: filled cur)
  case Nil
  then show ?case by simp
next
  case (Cons e es)
  let ?filled = "(if cur + 1 / 100 < start_hour e
       then filled @ [off_duty_entry (py_round 4 cur) (py_round 4 (start_hour e))]
       else filled) @ [e]"
  have e: "py_round 4 (start_hour e) = start_hour e" "py_round 4 (end_hour e) = end_hour e"
    using Cons.prems(5) by (simp_all add: entry_ok_def)
  have 1: "chained (\<le>) 0 ?filled"
    using Cons.prems(1,2,3,4) e
    by (auto simp: chained_append last_end_def off_duty_entry_def split: if_splits)
  have 2: "last_end 0 ?filled = end_hour e" by (simp add: last_end_def)
  have 3: "chained (\<le>) (end_hour e) es" using Cons.prems(3) by simp
  have 4: "\<forall>x\<in>set es. entry_ok x" using Cons.prems(5) by simp
  show ?case using Cons.IH [OF 1 2 3 e(2) 4] by simp
qed

lemma chained_sorted:
  assumes "chained (\<le>) c es" and "\<forall>e\<in>set es. start_hour e \<le> end_hour e"
  shows "sorted (map start_hour es) \<and> (\<forall>e\<in>set es. c \<le> start_hour e)"
  using assms
proof (induction es arbitrary: c)
  case Nil
  then show ?case by simp
next
  case (Cons e es)
  from Cons.prems have "chained (\<le>) (end_hour e) es"
    "\<forall>x\<in>set es. start_hour x \<le> end_hour x" by simp_all
  from Cons.IH [OF this]
  have "sorted (map start_hour es) \<and> (\<forall>x\<in>set es. end_hour e \<le> start_hour x)" .
  then show ?case using Cons.prems by fastforce
qed

text \<open>The entries \<open>_fill_gaps\<close> returns, for entries within the day.\<close>

lemma fill_gaps_tiles:
  assumes ok: "\<forall>e\<in>set es. entry_ok e"
  shows "fill_gaps es \<noteq> []"
    and "sorted (map start_hour (fill_gaps es))"
    and "0 \<le> start_hour (hd (fill_gaps es))"
    and "start_hour (hd (fill_gaps es)) \<le> 1 / 100"
    and "2399 / 100 \<le> end_hour (last (fill_gaps es))"
    and "end_hour (last (fill_gaps es)) \<le> 24"
    and "chained (\<lambda>c s. s \<le> c + 1 / 100) 0 (fill_gaps es)"
proof -
  let ?P = "\<lambda>F. F \<noteq> [] \<and> sorted (map start_hour F) \<and> 0 \<le> start_hour (hd F)
    \<and> start_hour (hd F) \<le> 1 / 100 \<and> 2399 / 100 \<le> end_hour (last F)
    \<and> end_hour (last F) \<le> 24 \<and> chained (\<lambda>c s. s \<le> c + 1 / 100) 0 F"
  have "?P (fill_gaps es)"
  proof (cases "es = []")
    case True
    then show ?thesis by (simp add: fill_gaps_def off_duty_entry_def)
  next
    case False
    let ?S = "sort_key start_hour es"
    obtain G cur where G: "fill_loop ?S [] 0 = (G, cur)" by force
    have "filled_ok 0 [] 0" by (simp add: filled_ok_def last_end_def)
    moreover have "\<forall>e\<in>set ?S. entry_ok e" using ok by simp
    moreover have "sorted (map start_hour ?S)" by (rule sorted_sort_key)
    moreover have "\<forall>e\<in>set ?S. 0 \<le> start_hour e" using ok by (simp add: entry_ok_def)
    ultimately obtain lo where "filled_ok lo (fst (fill_loop ?S [] 0)) (snd (fill_loop ?S [] 0))"
      using fill_loop_ok by blast
    then have inv: "filled_ok lo G cur" by (simp add: G)
    have ne: "G \<noteq> []"
      using fill_loop_nonempty [of ?S "[]" 0] False G by (cases es) auto
    have hd0: "0 \<le> start_hour (hd G)"
      using inv ne by (simp add: filled_ok_def entry_ok_def)
    have hd1: "start_hour (hd G) \<le> 1 / 100"
      using chained_hd [of "\<lambda>c s. s \<le> c + 1 / 100" 0 G] inv ne by (simp add: filled_ok_def)
    have last: "end_hour (last G) = cur" using inv ne by (simp add: filled_ok_def last_end_def)
    show ?thesis
    proof (cases "cur < 2399 / 100")
      case True
      then have F: "fill_gaps es = G @ [off_duty_entry cur 24]"
        using False G inv by (simp add: fill_gaps_def filled_ok_def)
      show ?thesis
        unfolding F using inv ne hd0 hd1
        by (auto simp: filled_ok_def sorted_append chained_append off_duty_entry_def)
    next
      case False2: False
      then have F: "fill_gaps es = G" using False G by (simp add: fill_gaps_def)
      show ?thesis
        unfolding F using inv ne hd0 hd1 last False2 by (simp add: filled_ok_def)
    qed
  qed
  then show "fill_gaps es \<noteq> []"
    and "sorted (map start_hour (fill_gaps es))"
    and "0 \<le> start_hour (hd (fill_gaps es))"
    and "start_hour (hd (fill_gaps es)) \<le> 1 / 100"
    and "2399 / 100 \<le> end_hour (last (fill_gaps es))"
    and "end_hour (last (fill_gaps es)) \<le> 24"
    and "chained (\<lambda>c s. s \<le> c + 1 / 100) 0 (fill_gaps es)"
    by blast+
qed

lemma fill_gaps_ordered:
  assumes ok: "\<forall>e\<in>set es. entry_ok e" and ord: "chained (\<le>) 0 es"
  shows "chained (\<le>) 0 (fill_gaps es)"
proof (cases "es = []")
  case True
  then show ?thesis by (simp add: fill_gaps_def off_duty_entry_def)
next
  case False
  have "sorted (map start_hour es)"
    using chained_sorted [OF ord] ok by (simp add: entry_ok_def)
  then have S: "sort_key start_hour es = es" by (rule sort_key_id_if_sorted)
  obtain G cur where G: "fill_loop es [] 0 = (G, cur)" by force
  have "chained (\<le>) 0 (fst (fill_loop es [] 0))
    \<and> last_end 0 (fst (fill_loop es [] 0)) = snd (fill_loop es [] 0)
    \<and> py_round 4 (snd (fill_loop es [] 0)) = snd (fill_loop es [] 0)"
    using ord ok by (intro fill_loop_ordered) (simp_all add: last_end_def)
  then have "chained (\<le>) 0 G" "last_end 0 G = cur" "py_round 4 cur = cur"
    by (simp_all add: G)
  then show ?thesis
    using False by (simp add: fill_gaps_def S G chained_append off_duty_entry_def)
qed

lemma slice_entry_ok:
  assumes "ss < se" and "ds \<le> ss" and "se \<le> ds + US_PER_DAY"
  shows "entry_ok \<lparr>status = st, start_hour = py_round 4 (hours_of (ss - ds)),
           end_hour = py_round 4 (hours_of (se - ds)), entry_segment_type = ty\<rparr>"
proof -
  have "py_round 4 (hours_of 0) \<le> py_round 4 (hours_of (ss - ds))"
    using assms(2) by (intro py_round_mono hours_of_mono) simp
  moreover have "py_round 4 (hours_of (ss - ds)) \<le> py_round 4 (hours_of (se - ds))"
    using assms(1) by (intro py_round_mono hours_of_mono) simp
  moreover have "py_round 4 (hours_of (se - ds)) \<le> py_round 4 (hours_of US_PER_DAY)"
    using assms(3) by (intro py_round_mono hours_of_mono) simp
  ultimately show ?thesis by (simp add: entry_ok_def)
qed

lemma day_segments_entry_ok:
  assumes "\<forall>e\<in>set E. entry_ok e"
  shows "\<forall>e\<in>set (fst (day_segments ds (ds + US_PER_DAY) segs (E, M, R))). entry_ok e"
  using assms
proof (induction segs arbitrary: E M R)
  case Nil
  then show ?case by simp
next
  case (Cons seg segs)
  let ?ss = "max (start_time seg) ds" and ?se = "min (end_time seg) (ds + US_PER_DAY)"
  show ?case
  proof (cases "?se \<le> ?ss")
    case True
    then show ?thesis using Cons.IH [OF Cons.prems] by (simp add: Let_def)
  next
    case False
    have "entry_ok \<lparr>status = map_duty_status (duty_status seg),
        start_hour = py_round 4 (hours_of (?ss - ds)),
        end_hour = py_round 4 (hours_of (?se - ds)),
        entry_segment_type = segment_type seg\<rparr>"
      using False by (intro slice_entry_ok; linarith)
    then have "\<forall>e\<in>set (E @ [\<lparr>status = map_duty_status (duty_status seg),
        start_hour = py_round 4 (hours_of (?ss - ds)),
        end_hour = py_round 4 (hours_of (?se - ds)),
        entry_segment_type = segment_type seg\<rparr>]). entry_ok e"
      using Cons.prems by simp
    from Cons.IH [OF this] show ?thesis using False by (simp add: Let_def)
  qed
qed

lemma day_segments_ordered:
  assumes "chronological segs" and "chained (\<le>) 0 E"
    and "\<forall>s\<in>set segs. last_end 0 E \<le> py_round 4 (hours_of (max (start_time s) ds - ds))"
  shows "chained (\<le>) 0 (fst (day_segments ds de segs (E, M, R)))"
  using assms
proof (induction segs arbitrary: E M R)
  case Nil
  then show ?case by simp
next
  case (Cons seg segs)
  let ?ss = "max (start_time seg) ds" and ?se = "min (end_time seg) de"
  have chron: "chronological segs" using Cons.prems(1) by (simp add: chronological_def)
  show ?case
  proof (cases "?se \<le> ?ss")
    case True
    have "chained (\<le>) 0 (fst (day_segments ds de segs (E, M, R)))"
      using chron Cons.prems(2,3) by (intro Cons.IH) simp_all
    then show ?thesis using True by (simp add: Let_def)
  next
    case False
    let ?e = "\<lparr>status = map_duty_status (duty_status seg),
        start_hour = py_round 4 (hours_of (?ss - ds)),
        end_hour = py_round 4 (hours_of (?se - ds)),
        entry_segment_type = segment_type seg\<rparr>"
    have 1: "chained (\<le>) 0 (E @ [?e])"
      using Cons.prems(2,3) by (simp add: chained_append)
    have 2: "\<forall>s\<in>set segs. last_end 0 (E @ [?e])
        \<le> py_round 4 (hours_of (max (start_time s) ds - ds))"
    proof
      fix s assume "s \<in> set segs"
      then have "end_time seg \<le> start_time s"
        using Cons.prems(1) by (simp add: chronological_def)
      then have "?se - ds \<le> max (start_time s) ds - ds" by simp
      then show "last_end 0 (E @ [?e]) \<le> py_round 4 (hours_of (max (start_time s) ds - ds))"
        by (simp add: last_end_def py_round_mono hours_of_mono)
    qed
    from Cons.IH [OF chron 1 2] show ?thesis using False by (simp add: Let_def)
  qed
qed

lemma days_loop_logs:
  "dlog \<in> set (days_loop segs cur end_date n logs) \<Longrightarrow>
   dlog \<in> set logs \<or> (\<exists>d k. dlog = day_log segs d k)"
proof (induction segs cur end_date n logs rule: days_loop.induct)
  case (1 segs cur end_date n logs)
  show ?case
  proof (cases "cur \<le> end_date")
    case True
    have "days_loop segs cur end_date n logs
        = days_loop segs (cur + 1) end_date (n + 1) (logs @ [day_log segs cur n])"
      using True by (subst days_loop.simps) simp
    then show ?thesis using "1.IH" [OF True] "1.prems" by auto
  next
    case False
    then have "days_loop segs cur end_date n logs = logs" by (subst days_loop.simps) simp
    then show ?thesis using "1.prems" by simp
  qed
qed

lemma entries_day_log:
  "entries (day_log segs d k)
   = fill_gaps (fst (day_segments (midnight d) (midnight d + US_PER_DAY) segs ([], 0, [])))"
  by (simp add: day_log_def Let_def split: prod.splits)

subsection \<open>A planned trip is chronological\<close>

lemma forward_append: "forward (xs @ ys) \<longleftrightarrow> forward xs \<and> forward ys"
  by (auto simp: forward_def)

lemma forward_iteration:
  assumes "forward (segments v)" and "1 / 10 < miles_remaining v"
  shows "forward (segments (plan_iteration sl el tm v))"
proof (cases "0 < remaining_driving (state v)")
  case True
  then obtain nf m where
    it: "plan_iteration sl el tm v = plan_drive sl el tm nf m (m / 55) v"
    and pos: "0 < miles_remaining v \<Longrightarrow> 0 < m"
    by (rule plan_iteration_drives) blast
  have "0 \<le> m / 55" using pos assms(2) by simp
  then have "0 \<le> timedelta_hours (m / 55)" by (rule timedelta_hours_nonneg)
  then show ?thesis
    using assms(1) unfolding it
    by (simp add: plan_drive_def Let_def forward_def timedelta_hours_nonneg hos_constants)
next
  case False
  then have "plan_iteration sl el tm v = plan_interruption sl el tm v"
    by (simp add: plan_iteration_interrupts)
  then show ?thesis
    using assms(1)
    by (simp add: plan_interruption_def Let_def forward_def timedelta_hours_nonneg
        hos_constants)
qed

lemma forward_plan: "forward (fst (plan_driving_segment st t sl el tm th))"
proof -
  let ?v = "\<lparr>state = st, segments = [], miles_remaining = tm, current_time = t,
             miles_since_fuel = 0\<rparr>"
  have "forward (segments (plan_loop sl el tm ?v))
      \<and> miles_remaining (plan_loop sl el tm ?v) \<le> 1 / 10"
    by (rule plan_loop_invariant)
      (simp_all add: forward_iteration, simp add: forward_def)
  then show ?thesis by (simp add: plan_driving_segment_def Let_def)
qed

lemma forward_legs:
  assumes "calculate_trip_legs legs st segs t = Inr out" and "forward segs"
  shows "forward out"
  using assms
proof (induction legs arbitrary: st segs t)
  case Nil
  then show ?case by simp
next
  case (Cons leg legs)
  from Cons.prems(1) show ?case
  proof (cases rule: calculate_trip_legs_step)
    case skip
    then show ?thesis using Cons.IH Cons.prems(2) by blast
  next
    case (stop new st1 r st2 s st3)
    have "forward new"
      using forward_plan [of st t "leg_start_location leg" "leg_end_location leg"
          "leg_distance_miles leg" "leg_distance_miles leg / AVG_SPEED_MPH"]
      by (simp add: stop(1))
    moreover have "forward r" using stop(3) by (auto simp: forward_def)
    moreover have "forward [(s, st3)]" using stop(8) by (simp add: forward_def)
    ultimately have "forward (segs @ new @ r @ [(s, st3)])"
      using Cons.prems(2) by (simp add: forward_append)
    then show ?thesis using Cons.IH stop(7) by blast
  qed
qed

lemma contiguous_chronological:
  assumes "contiguous_from t segs" and "\<forall>s\<in>set segs. start_time s \<le> end_time s"
  shows "chronological segs \<and> (\<forall>s\<in>set segs. t \<le> start_time s)"
  using assms
proof (induction segs arbitrary: t)
  case Nil
  then show ?case by (simp add: chronological_def)
next
  case (Cons s segs)
  from Cons.prems have "contiguous_from (end_time s) segs"
    "\<forall>x\<in>set segs. start_time x \<le> end_time x" by simp_all
  from Cons.IH [OF this]
  have "chronological segs \<and> (\<forall>x\<in>set segs. end_time s \<le> start_time x)" .
  then show ?case using Cons.prems by (fastforce simp: chronological_def)
qed

lemma calculate_trip_chronological:
  assumes "calculate_trip route_legs current_cycle_used t0 = Inr segs"
  shows "chronological segs"
proof -
  from assms obtain evs where
    evs: "calculate_trip_legs route_legs (HOSState_init current_cycle_used) [] t0 = Inr evs"
    and segs: "segs = map fst evs"
    unfolding calculate_trip_def calculate_trip_events_def
    by (cases "calculate_trip_legs route_legs (HOSState_init current_cycle_used) [] t0") auto
  have "contiguous_from t0 (map fst evs)"
    using evs by (rule contiguous_legs) (simp_all add: end_of_def)
  moreover have "forward evs"
    using evs by (rule forward_legs) (simp add: forward_def)
  then have "\<forall>s\<in>set (map fst evs). start_time s \<le> end_time s"
    by (auto simp: forward_def)
  ultimately show ?thesis
    unfolding segs using contiguous_chronological by blast
qed

subsection \<open>The entries of a daily log\<close>

lemma day_log_entries_tile:
  assumes "dlog \<in> set (generate_eld_logs segs trip_start_date)"
  shows "entries dlog \<noteq> [] \<and> sorted (map start_hour (entries dlog))
    \<and> 0 \<le> start_hour (hd (entries dlog)) \<and> start_hour (hd (entries dlog)) \<le> 1 / 100
    \<and> 2399 / 100 \<le> end_hour (last (entries dlog)) \<and> end_hour (last (entries dlog)) \<le> 24
    \<and> (\<forall>(a, b) \<in> set (zip (entries dlog) (tl (entries dlog))).
          start_hour b \<le> end_hour a + 1 / 100)
    \<and> (chronological segs \<longrightarrow>
         (\<forall>(a, b) \<in> set (zip (entries dlog) (tl (entries dlog))).
            end_hour a \<le> start_hour b))"
proof -
  from assms obtain d k where dl: "dlog = day_log segs d k"
    using days_loop_logs [of dlog segs _ _ 0 "[]"]
    by (auto simp: generate_eld_logs_def Let_def split: if_splits)
  let ?E = "fst (day_segments (midnight d) (midnight d + US_PER_DAY) segs ([], 0, []))"
  have E: "entries dlog = fill_gaps ?E" by (simp add: dl entries_day_log)
  have ok: "\<forall>e\<in>set ?E. entry_ok e" by (rule day_segments_entry_ok) simp
  note t = fill_gaps_tiles [OF ok]
  have gaps: "\<forall>(a, b) \<in> set (zip (fill_gaps ?E) (tl (fill_gaps ?E))).
      start_hour b \<le> end_hour a + 1 / 100"
    using chained_pairs [OF t(7)] by auto
  have ord: "\<forall>(a, b) \<in> set (zip (fill_gaps ?E) (tl (fill_gaps ?E))).
      end_hour a \<le> start_hour b" if c: "chronological segs"
  proof -
    have "\<forall>s\<in>set segs. last_end 0 []
        \<le> py_round 4 (hours_of (max (start_time s) (midnight d) - midnight d))"
    proof
      fix s
      have "py_round 4 (hours_of 0)
          \<le> py_round 4 (hours_of (max (start_time s) (midnight d) - midnight d))"
        by (intro py_round_mono hours_of_mono) simp
      then show "last_end 0 []
          \<le> py_round 4 (hours_of (max (start_time s) (midnight d) - midnight d))"
        by (simp add: last_end_def)
    qed
    then have "chained (\<le>) 0 ?E"
      using c by (intro day_segments_ordered) simp_all
    then have "chained (\<le>) 0 (fill_gaps ?E)" using ok by (intro fill_gaps_ordered)
    then show ?thesis using chained_pairs by fastforce
  qed
  show ?thesis unfolding E using t(1-6) gaps ord by blast
qed

corollary planned_trip_logs_do_not_overlap:
  assumes "calculate_trip route_legs current_cycle_used t0 = Inr segs"
    and "dlog \<in> set (generate_eld_logs segs trip_start_date)"
    and "(a, b) \<in> set (zip (entries dlog) (tl (entries dlog)))"
  shows "end_hour a \<le> start_hour b \<and> start_hour b \<le> end_hour a + 1 / 100"
  using day_log_entries_tile [OF assms(2)] calculate_trip_chronological [OF assms(1)] assms(3)
  by blast

subsection \<open>Running the planner on the example\<close>

lemmas trip_eval =
  calculate_trip_events_def calculate_trip_def plan_driving_segment_def
  plan_loop.simps plan_iteration_def plan_drive_def plan_interruption_def plan_break_carve_def
  check_and_add_rest_if_needed_def HOSState_init_def
  remaining_driving_def remaining_before_break_def needs_break_def needs_rest_def
  needs_cycle_reset_def add_driving_def add_on_duty_def take_break_def take_rest_def
  take_cycle_restart_def interpolate_location_def py_round_def round_half_even_def
  timedelta_hours_def US_PER_HOUR_def hos_constants Let_def
  OFF_DUTY_def ON_DUTY_def DRIVING_def

lemma example_trip_events:
  "calculate_trip_events [example_leg] 0 0 = Inr example_events"
  by (simp add: trip_eval example_leg_def example_place_def example_events_def
      example_drive_def example_pickup_def)

section \<open>The claims\<close>

text \<open>
  C1. For every list of route legs and every \<open>current_cycle_used\<close> (in particular those
  in [0, 70]), immediately after each drive segment that \<open>calculate_trip\<close> emits the
  ledger satisfies \<open>driving_hours \<le> 11\<close>, \<open>window_hours \<le> 14\<close>,
  \<open>hours_since_break \<le> 8\<close> and \<open>cycle_hours \<le> 70\<close>. In exact arithmetic no slack
  is needed.
\<close>

theorem ledger_compliance:
  assumes "calculate_trip_events route_legs current_cycle_used t0 = Inr evs"
    and "(seg, st) \<in> set evs" and "segment_type seg = ''drive''"
  shows "driving_hours st \<le> 11 \<and> window_hours st \<le> 14 \<and> hours_since_break st \<le> 8
    \<and> cycle_hours st \<le> 70"
proof -
  have "drives_within_limits evs"
    using assms(1) unfolding calculate_trip_events_def
    by (rule drives_within_limits_legs) (simp add: drives_within_limits_def)
  then show ?thesis
    using assms(2,3) by (auto simp: drives_within_limits_def within_limits_def)
qed

theorem ledger_compliance_witness:
  "calculate_trip_events [example_leg] 0 0 = Inr example_events
   \<and> hd example_events \<in> set example_events
   \<and> segment_type (fst (hd example_events)) = ''drive''
   \<and> driving_hours (snd (hd example_events)) \<le> 11
   \<and> window_hours (snd (hd example_events)) \<le> 14
   \<and> hours_since_break (snd (hd example_events)) \<le> 8
   \<and> cycle_hours (snd (hd example_events)) \<le> 70"
proof -
  have 1: "(fst (hd example_events), snd (hd example_events)) \<in> set example_events"
    by (simp add: example_events_def)
  have 2: "segment_type (fst (hd example_events)) = ''drive''"
    by (simp add: example_events_def example_drive_def)
  show ?thesis
    using ledger_compliance [OF example_trip_events 1 2] example_trip_events 1 2 by simp
qed

text \<open>
  C2. Whenever \<open>calculate_trip\<close> returns at least two segments, any two consecutive
  segments \<open>s[i]\<close>, \<open>s[i+1]\<close> satisfy \<open>s[i].end_time = s[i+1].start_time\<close> exactly,
  within a leg and across legs.
\<close>

theorem timeline_contiguity:
  assumes "calculate_trip route_legs current_cycle_used t0 = Inr segs"
    and "Suc i < length segs"
  shows "end_time (segs ! i) = start_time (segs ! Suc i)"
proof -
  from assms(1) obtain evs where
    evs: "calculate_trip_legs route_legs (HOSState_init current_cycle_used) [] t0 = Inr evs"
    and segs: "segs = map fst evs"
    unfolding calculate_trip_def calculate_trip_events_def
    by (cases "calculate_trip_legs route_legs (HOSState_init current_cycle_used) [] t0") auto
  have "contiguous_from t0 (map fst evs)"
    using evs by (rule contiguous_legs) (simp_all add: end_of_def)
  then show ?thesis using assms(2) unfolding segs by (rule contiguous_from_nth)
qed

theorem timeline_contiguity_witness:
  "calculate_trip [example_leg] 0 0 = Inr [example_drive, example_pickup]
   \<and> Suc 0 < length [example_drive, example_pickup]
   \<and> end_time ([example_drive, example_pickup] ! 0)
       = start_time ([example_drive, example_pickup] ! Suc 0)"
proof -
  have 1: "calculate_trip [example_leg] 0 0 = Inr [example_drive, example_pickup]"
    by (simp add: calculate_trip_def example_trip_events example_events_def)
  have 2: "Suc 0 < length [example_drive, example_pickup]" by simp
  show ?thesis using timeline_contiguity [OF 1 2] 1 by simp
qed

text \<open>
  C3. For every leg with a nonnegative distance, the \<open>distance_miles\<close> of the drive
  segments that \<open>_plan_driving_segment\<close> emits for the leg add up to the leg's distance
  within 0.5 miles (the loop stops with at most 0.1 miles left).
\<close>

theorem distance_conservation:
  assumes "0 \<le> total_miles"
  shows "\<bar>drive_miles (map fst (fst (plan_driving_segment st t0 start_loc end_loc total_miles
            total_hours))) - total_miles\<bar> \<le> 1 / 2"
  using drive_miles_plan [OF assms, of st t0 start_loc end_loc total_hours] by simp

theorem distance_conservation_witness:
  "(0::real) \<le> 110
   \<and> \<bar>drive_miles (map fst (fst (plan_driving_segment (HOSState_init 0) 0 example_place
          example_place 110 2))) - 110\<bar> \<le> 1 / 2"
proof -
  have 1: "(0::real) \<le> 110" by simp
  show ?thesis
    using distance_conservation [OF 1, of "HOSState_init 0" 0 example_place example_place 2]
    by simp
qed

text \<open>
  C4. Between two consecutive fuel segments of a trip, and in any run of drive segments
  without a fuel segment, at most 1100 miles are driven. The planner counts the miles
  since the last fuel stop from zero in every leg, so this fails across legs: the two
  legs of 560 miles are driven without any fuel segment.
\<close>

theorem no_fuel_stop_across_legs:
  "(case calculate_trip long_haul_legs 0 0 of
      Inl e \<Rightarrow> False
    | Inr segs \<Rightarrow> filter (\<lambda>s. segment_type s = ''fuel'') segs = []
        \<and> drive_miles segs = 1120)"
  by code_simp

text \<open>
  C5. A leg of zero distance is tolerated: the planner returns, emits no drive segment for
  it and still emits its pickup or dropoff. When the leg is the first one this fails:
  \<^verbatim>\<open>segments[-1]\<close> is read while the list is still empty.
\<close>

theorem zero_distance_first_leg_raises:
  "calculate_trip [example_leg\<lparr>leg_distance_miles := 0\<rparr>] 0 0 = Inl IndexError"
  by (simp add: trip_eval example_leg_def example_place_def)

text \<open>
  C6. The entries of every DailyLog tile [0, 24]: sorted by \<open>start_hour\<close>, each
  \<open>end_hour\<close> equal to the next \<open>start_hour\<close> within 0.01, the first starting at 0 and
  the last ending at 24. The gap filler leaves gaps of up to 0.01 hours open, also before
  the first and after the last entry, and it does not touch entries that overlap. What
  holds for every segment list: the entries are sorted, the first starts within 0.01 of 0,
  the last ends within 0.01 of 24, and no gap between consecutive entries exceeds 0.01;
  for chronological segments consecutive entries do not overlap either.
\<close>

theorem daily_log_partition:
  assumes "dlog \<in> set (generate_eld_logs segs trip_start_date)"
  shows "entries dlog \<noteq> [] \<and> sorted (map start_hour (entries dlog))
    \<and> 0 \<le> start_hour (hd (entries dlog)) \<and> start_hour (hd (entries dlog)) \<le> 1 / 100
    \<and> 2399 / 100 \<le> end_hour (last (entries dlog)) \<and> end_hour (last (entries dlog)) \<le> 24
    \<and> (\<forall>(a, b) \<in> set (zip (entries dlog) (tl (entries dlog))).
          start_hour b \<le> end_hour a + 1 / 100)
    \<and> (chronological segs \<longrightarrow>
         (\<forall>(a, b) \<in> set (zip (entries dlog) (tl (entries dlog))).
            end_hour a \<le> start_hour b))"
  using assms by (rule day_log_entries_tile)

theorem daily_log_partition_witness:
  "example_log \<in> set (generate_eld_logs [example_drive, example_pickup] None)
   \<and> chronological [example_drive, example_pickup]
   \<and> entries example_log \<noteq> [] \<and> sorted (map start_hour (entries example_log))
   \<and> 0 \<le> start_hour (hd (entries example_log))
   \<and> start_hour (hd (entries example_log)) \<le> 1 / 100
   \<and> 2399 / 100 \<le> end_hour (last (entries example_log))
   \<and> end_hour (last (entries example_log)) \<le> 24
   \<and> start_hour (entries example_log ! 1) \<le> end_hour (entries example_log ! 0) + 1 / 100
   \<and> end_hour (entries example_log ! 0) \<le> start_hour (entries example_log ! 1)"
proof -
  have 1: "example_log \<in> set (generate_eld_logs [example_drive, example_pickup] None)"
    unfolding example_log_def by code_simp
  have 2: "chronological [example_drive, example_pickup]"
    by (simp add: chronological_def example_drive_def example_pickup_def)
  have 3: "(entries example_log ! 0, entries example_log ! 1)
      \<in> set (zip (entries example_log) (tl (entries example_log)))"
    unfolding example_log_def by code_simp
  show ?thesis using daily_log_partition [OF 1] 1 2 3 by blast
qed

theorem daily_log_partition_counterexample:
  "generate_eld_logs overlapping_shifts None \<noteq> []
   \<and> map (\<lambda>e. (start_hour e, end_hour e))
        (entries (hd (generate_eld_logs overlapping_shifts None)))
      = [(83 / 10000, 12), (6, 119979 / 5000)]
   \<and> \<not> tiles_day (entries (hd (generate_eld_logs overlapping_shifts None)))"
  by code_simp

text \<open>
  C7. \<open>generate_eld_logs\<close> returns one DailyLog per calendar day, in order, from the
  start date through \<open>last_segment_end.date()\<close>, and the empty list for an empty segment
  list. The start date is \<open>trip_start_date\<close> when it is given and
  \<open>first_segment_start.date()\<close> otherwise: the program takes no maximum of the two, so a
  \<open>trip_start_date\<close> before the first segment gives logs for the days before it too.
\<close>

theorem eld_log_days:
  "generate_eld_logs [] trip_start_date = []
   \<and> (segs \<noteq> [] \<longrightarrow>
        map log_date (generate_eld_logs segs trip_start_date)
        = [(case trip_start_date of Some d \<Rightarrow> d | None \<Rightarrow> date_of (start_time (hd segs)))
           .. date_of (end_time (last segs))])"
  by (simp add: generate_eld_logs_def Let_def days_loop_dates)

theorem eld_log_days_witness:
  "[night_rest] \<noteq> [] \<and> map log_date (generate_eld_logs [night_rest] None) = [1, 2]"
  using eld_log_days [of None "[night_rest]"]
  by (simp add: night_rest_def date_of_def US_PER_DAY_def upto.simps)

theorem eld_log_days_counterexample:
  "map log_date (generate_eld_logs [night_rest] (Some 0))
   \<noteq> [max 0 (date_of (start_time (hd [night_rest])))
        .. date_of (end_time (last [night_rest]))]"
  by (simp add: generate_eld_logs_def Let_def days_loop_dates night_rest_def date_of_def
      US_PER_DAY_def upto.simps)

text \<open>
  C8. The remark \<open>"HH:MM - reason"\<close> of a segment is added only to the log of the day on
  which the segment starts. The test \<^verbatim>\<open>seg_start >= seg.start_time\<close> that should see to
  this always holds, \<open>seg_start\<close> being \<^verbatim>\<open>max(seg.start_time, day_start)\<close>: the rest
  that starts at 20:00 is remarked again at 00:00 of the next day.
\<close>

theorem remark_repeated_on_later_day:
  "map remarks (generate_eld_logs [night_rest] None)
   = [[''20:00 - Required 10-hour rest''], [''00:00 - Required 10-hour rest'']]"
  by code_simp

text \<open>
  C9. For every ledger, \<open>take_break\<close> sets \<open>hours_since_break\<close> to 0 and leaves
  \<open>driving_hours\<close>, \<open>window_hours\<close>, \<open>cycle_hours\<close> and \<open>on_duty\<close> as they were.
\<close>

theorem take_break_frame:
  "hours_since_break (take_break s) = 0
   \<and> driving_hours (take_break s) = driving_hours s
   \<and> window_hours (take_break s) = window_hours s
   \<and> cycle_hours (take_break s) = cycle_hours s
   \<and> on_duty (take_break s) = on_duty s"
  by (simp add: take_break_def)

text \<open>
  C10. The planning loop terminates, for every ledger and every leg (in particular for
  \<open>cycle_hours < 70\<close> and a nonnegative distance): a pass through the body either
  drives a positive number of miles, or interrupts and leaves \<open>remaining_driving\<close>
  positive, so the next pass drives; the variant \<open>plan_measure\<close> decreases with every
  pass, and the loop stops after at most that many passes with at most 0.1 miles left.
\<close>

theorem planning_loop_terminates:
  "(1 / 10 < miles_remaining v \<longrightarrow>
      plan_measure (plan_iteration start_loc end_loc total_miles v) < plan_measure v
      \<and> (if 0 < remaining_driving (state v)
         then miles_remaining (plan_iteration start_loc end_loc total_miles v)
              < miles_remaining v
         else miles_remaining (plan_iteration start_loc end_loc total_miles v)
              = miles_remaining v
            \<and> 0 < remaining_driving (state (plan_iteration start_loc end_loc total_miles v))))
   \<and> (\<exists>n\<le>plan_measure v.
        plan_loop start_loc end_loc total_miles v
          = (plan_iteration start_loc end_loc total_miles ^^ n) v
        \<and> miles_remaining (plan_loop start_loc end_loc total_miles v) \<le> 1 / 10)"
  using plan_measure_decreases [of v start_loc end_loc total_miles]
    plan_iteration_progress [of v start_loc end_loc total_miles]
    plan_loop_iterations [of v start_loc end_loc total_miles]
  by blast

theorem planning_loop_terminates_witness:
  "1 / 10 < miles_remaining example_vars
   \<and> 0 < remaining_driving (state example_vars)
   \<and> plan_measure (plan_iteration example_place example_place 110 example_vars)
       < plan_measure example_vars
   \<and> miles_remaining (plan_iteration example_place example_place 110 example_vars)
       < miles_remaining example_vars"
proof -
  have 1: "1 / 10 < miles_remaining example_vars"
    by (simp add: example_vars_def)
  have 2: "0 < remaining_driving (state example_vars)"
    by (simp add: example_vars_def HOSState_init_def remaining_driving_pos_iff)
  show ?thesis
    using planning_loop_terminates [of example_vars example_place example_place 110] 1 2
    by simp
qed

end
